theory Spec2Isabelle
  imports Main
begin

section \<open>Data model of the Bento Blocks rules engine\<close>

text \<open>
  The engine (\<^verbatim>\<open>src/web-app/bento_blocks.js\<close>) works on plain JavaScript objects.
  Numbers are modelled as \<^typ>\<open>int\<close>, coordinate pairs \<^verbatim>\<open>[x, y]\<close> as pairs, arrays
  as lists, \<^verbatim>\<open>null\<close>/\<^verbatim>\<open>undefined\<close> as \<^const>\<open>None\<close>, and a thrown exception as the
  left summand of a sum type. The record fields keep the source's names; \<^verbatim>\<open>id\<close>,
  \<^verbatim>\<open>size\<close> and the second \<^verbatim>\<open>shape\<close> carry a suffix because the plain names are taken.
\<close>

type_synonym cell = "int \<times> int"
type_synonym shape = "cell list"

datatype game_status = WAITING | IN_PROGRESS | FINISHED

datatype error = TypeError | Error string

record piece =
  id_piece :: string
  shape :: shape
  used :: bool
  rotation :: int
  flipped :: bool

record player =
  id_player :: int
  score :: int
  pieces :: "piece list"
  color :: string

record move =
  playerId :: int
  pieceId :: string
  position :: "int \<times> int"
  shape_move :: shape
  timestamp :: int

text \<open>
  The board is polymorphic in the representation of its grid: \<open>int list list\<close> for a
  board read as a value, and a list of row addresses for a board whose row arrays live
  in a store (used where in-place mutation of the arrays is at stake).
  \<^verbatim>\<open>currentPlayer\<close> is optional because \<^verbatim>\<open>getNextPlayer\<close> yields \<^verbatim>\<open>undefined\<close> on an
  empty player list.
\<close>

record 'g board_of =
  grid :: 'g
  size_board :: int
  players :: "player list"
  currentPlayer :: "int option"
  status :: game_status
  moveHistory :: "move list"
  lastMove :: "move option"

type_synonym board = "int list list board_of"

section \<open>Constants and catalog\<close>

definition BOARD_SIZE :: int where
  "BOARD_SIZE = 20"

definition PIECE_SHAPES :: "(string \<times> shape) list" where
  "PIECE_SHAPES =
    [(''I1'', [(0, 0)]),
     (''I2'', [(0, 0), (1, 0)]),
     (''I3'', [(0, 0), (1, 0), (2, 0)]),
     (''L3'', [(0, 0), (1, 0), (0, 1)]),
     (''I4'', [(0, 0), (1, 0), (2, 0), (3, 0)]),
     (''L4'', [(0, 0), (1, 0), (2, 0), (0, 1)]),
     (''O4'', [(0, 0), (1, 0), (0, 1), (1, 1)]),
     (''S4'', [(0, 0), (1, 0), (1, 1), (2, 1)]),
     (''T4'', [(0, 0), (1, 0), (2, 0), (1, 1)]),
     (''I5'', [(0, 0), (1, 0), (2, 0), (3, 0), (4, 0)]),
     (''L5'', [(0, 0), (1, 0), (2, 0), (3, 0), (0, 1)]),
     (''N5'', [(0, 0), (1, 0), (1, 1), (2, 1), (3, 1)]),
     (''P5'', [(0, 0), (1, 0), (0, 1), (1, 1), (0, 2)]),
     (''T5'', [(0, 0), (1, 0), (2, 0), (1, 1), (1, 2)]),
     (''U5'', [(0, 0), (2, 0), (0, 1), (1, 1), (2, 1)]),
     (''V5'', [(0, 0), (0, 1), (0, 2), (1, 2), (2, 2)]),
     (''W5'', [(0, 0), (0, 1), (1, 1), (1, 2), (2, 2)]),
     (''X5'', [(1, 0), (0, 1), (1, 1), (2, 1), (1, 2)]),
     (''Y5'', [(0, 0), (1, 0), (1, 1), (1, 2), (1, 3)]),
     (''Z5'', [(0, 0), (1, 0), (1, 1), (1, 2), (2, 2)]),
     (''F5'', [(1, 0), (2, 0), (0, 1), (1, 1), (1, 2)])]"

text \<open>\<^verbatim>\<open>getAllPieces\<close>: one unused, unrotated, unflipped piece per catalog key, in key order.\<close>

definition getAllPieces :: "piece list" where
  "getAllPieces =
     map (\<lambda>(shapeKey, s). \<lparr>id_piece = shapeKey, shape = s, used = False,
                             rotation = 0, flipped = False\<rparr>) PIECE_SHAPES"

section \<open>Geometry\<close>

text \<open>
  \<^verbatim>\<open>Math.min(...xs)\<close>. With no arguments JavaScript returns \<^verbatim>\<open>Infinity\<close>; both callers
  subtract the minimum only inside a \<^verbatim>\<open>map\<close> over the same list, so for the empty list
  the value is never used and \<open>0\<close> stands in for it.
\<close>

fun Math_min :: "int list \<Rightarrow> int" where
  "Math_min [] = 0"
| "Math_min (x # xs) = fold min xs x"

definition rotatePiece :: "shape \<Rightarrow> shape" where
  "rotatePiece s =
     (let rotated = map (\<lambda>(x, y). (y, - x)) s;
          minX = Math_min (map (\<lambda>(x, y). x) rotated);
          minY = Math_min (map (\<lambda>(x, y). y) rotated)
      in map (\<lambda>(x, y). (x - minX, y - minY)) rotated)"

definition flipPiece :: "shape \<Rightarrow> shape" where
  "flipPiece s =
     (let flipped = map (\<lambda>(x, y). (- x, y)) s;
          minX = Math_min (map (\<lambda>(x, y). x) flipped);
          minY = Math_min (map (\<lambda>(x, y). y) flipped)
      in map (\<lambda>(x, y). (x - minX, y - minY)) flipped)"

text \<open>
  \<^verbatim>\<open>getTransformedShape\<close>: the loop \<^verbatim>\<open>for (i = 0; i < piece.rotation; i++)\<close> runs
  \<open>nat (rotation p)\<close> times (not at all for a negative count), then the flip is applied.
\<close>

definition getTransformedShape :: "piece \<Rightarrow> shape" where
  "getTransformedShape p =
     (let s = (rotatePiece ^^ nat (rotation p)) (shape p)
      in if flipped p then flipPiece s else s)"

section \<open>Board lifecycle\<close>

definition createBoard :: board where
  "createBoard =
     \<lparr>grid = replicate (nat BOARD_SIZE) (replicate (nat BOARD_SIZE) 0),
      size_board = BOARD_SIZE,
      players =
        [\<lparr>id_player = 1, score = 0, pieces = getAllPieces, color = ''red''\<rparr>,
         \<lparr>id_player = 2, score = 0, pieces = getAllPieces, color = ''blue''\<rparr>,
         \<lparr>id_player = 3, score = 0, pieces = getAllPieces, color = ''yellow''\<rparr>,
         \<lparr>id_player = 4, score = 0, pieces = getAllPieces, color = ''purple''\<rparr>],
      currentPlayer = Some 1,
      status = WAITING,
      moveHistory = [],
      lastMove = None\<rparr>"

text \<open>
  \<^verbatim>\<open>startGame\<close>: the board argument is typed, so only the player count can be rejected;
  \<^verbatim>\<open>slice(0, playerCount)\<close> keeps the first \<open>playerCount\<close> players.
\<close>

definition startGame :: "board \<Rightarrow> int \<Rightarrow> error + board" where
  "startGame b playerCount =
     (if playerCount < 2 \<or> playerCount > 4
      then Inl (Error ''Invalid board or player count'')
      else Inr (b\<lparr>players := take (nat playerCount) (players b),
                   currentPlayer := Some 1,
                   status := IN_PROGRESS\<rparr>))"

section \<open>Reading the grid\<close>

definition isValidPosition :: "int \<Rightarrow> int \<Rightarrow> board \<Rightarrow> bool" where
  "isValidPosition row col b \<longleftrightarrow>
     row \<ge> 0 \<and> row < size_board b \<and> col \<ge> 0 \<and> col < size_board b"

text \<open>
  \<^verbatim>\<open>board.grid[row][col]\<close>: a missing row is \<^verbatim>\<open>undefined\<close>, and indexing it throws a
  \<^verbatim>\<open>TypeError\<close>; a missing column of an existing row reads as \<^verbatim>\<open>undefined\<close>
  (\<^const>\<open>None\<close>), which is \<^verbatim>\<open>===\<close> to no number.
\<close>

definition gridRead :: "int list list \<Rightarrow> int \<Rightarrow> int \<Rightarrow> error + int option" where
  "gridRead g row col =
     (if 0 \<le> row \<and> row < int (length g)
      then (let r = g ! nat row
            in if 0 \<le> col \<and> col < int (length r) then Inr (Some (r ! nat col)) else Inr None)
      else Inl TypeError)"

definition isCellEmpty :: "int \<Rightarrow> int \<Rightarrow> board \<Rightarrow> error + bool" where
  "isCellEmpty row col b =
     (if \<not> isValidPosition row col b then Inr False
      else case gridRead (grid b) row col of
             Inl e \<Rightarrow> Inl e
           | Inr v \<Rightarrow> Inr (v = Some 0))"

section \<open>Placement validation\<close>

text \<open>\<^verbatim>\<open>board.players.find(p => p.id === playerId)\<close>: the first player with that id.\<close>

definition findPlayer :: "'g board_of \<Rightarrow> int \<Rightarrow> player option" where
  "findPlayer b pid = find (\<lambda>p. id_player p = pid) (players b)"

text \<open>
  \<^verbatim>\<open>touchesCorner\<close>: two nested loops that return \<^verbatim>\<open>true\<close> at the first shape cell equal to
  one of the four board corners, \<^verbatim>\<open>false\<close> when both are exhausted.
\<close>

definition touchesCorner :: "shape \<Rightarrow> int \<Rightarrow> int \<Rightarrow> board \<Rightarrow> bool" where
  "touchesCorner s row col b =
     (let corners = [(0, 0), (0, size_board b - 1), (size_board b - 1, 0),
                     (size_board b - 1, size_board b - 1)]
      in list_ex (\<lambda>(dx, dy).
           let newRow = row + dx; newCol = col + dy
           in list_ex (\<lambda>(cRow, cCol). newRow = cRow \<and> newCol = cCol) corners) s)"

text \<open>
  The loop shared, word for word, by \<^verbatim>\<open>touchesPlayerCorner\<close> and \<^verbatim>\<open>touchesPlayerEdge\<close>:
  walk the neighbour offsets, return \<^verbatim>\<open>true\<close> at the first neighbour that is a valid
  position and holds \<^verbatim>\<open>playerId\<close>.
\<close>

fun touchesOffsets :: "(int \<times> int) list \<Rightarrow> int \<Rightarrow> int \<Rightarrow> board \<Rightarrow> int \<Rightarrow> error + bool" where
  "touchesOffsets [] row col b pid = Inr False"
| "touchesOffsets ((dx, dy) # rest) row col b pid =
     (let checkRow = row + dx; checkCol = col + dy
      in if isValidPosition checkRow checkCol b
         then (case gridRead (grid b) checkRow checkCol of
                 Inl e \<Rightarrow> Inl e
               | Inr v \<Rightarrow> if v = Some pid then Inr True
                          else touchesOffsets rest row col b pid)
         else touchesOffsets rest row col b pid)"

definition touchesPlayerCorner :: "int \<Rightarrow> int \<Rightarrow> board \<Rightarrow> int \<Rightarrow> error + bool" where
  "touchesPlayerCorner row col b pid =
     touchesOffsets [(-1, -1), (-1, 1), (1, -1), (1, 1)] row col b pid"

definition touchesPlayerEdge :: "int \<Rightarrow> int \<Rightarrow> board \<Rightarrow> int \<Rightarrow> error + bool" where
  "touchesPlayerEdge row col b pid =
     touchesOffsets [(-1, 0), (1, 0), (0, -1), (0, 1)] row col b pid"

text \<open>
  The scan of \<^verbatim>\<open>isValidPlacement\<close> over the shape, carrying the two flags
  \<^verbatim>\<open>touchesCorner\<close> and \<^verbatim>\<open>touchesEdge\<close>; both neighbour checks run for every cell.
\<close>

fun scanCells :: "board \<Rightarrow> shape \<Rightarrow> int \<Rightarrow> int \<Rightarrow> int \<Rightarrow> bool \<Rightarrow> bool \<Rightarrow> error + bool \<times> bool" where
  "scanCells b [] row col pid tc te = Inr (tc, te)"
| "scanCells b ((dx, dy) # rest) row col pid tc te =
     (let newRow = row + dx; newCol = col + dy
      in case touchesPlayerCorner newRow newCol b pid of
           Inl e \<Rightarrow> Inl e
         | Inr c \<Rightarrow>
             (case touchesPlayerEdge newRow newCol b pid of
                Inl e \<Rightarrow> Inl e
              | Inr d \<Rightarrow> scanCells b rest row col pid (tc \<or> c) (te \<or> d)))"

text \<open>
  \<^verbatim>\<open>isValidPlacement\<close>. Reading \<^verbatim>\<open>player.pieces\<close> of a player that was not found throws
  a \<^verbatim>\<open>TypeError\<close>.
\<close>

definition isValidPlacement :: "board \<Rightarrow> shape \<Rightarrow> int \<Rightarrow> int \<Rightarrow> int \<Rightarrow> error + bool" where
  "isValidPlacement b s row col pid =
     (case findPlayer b pid of
        None \<Rightarrow> Inl TypeError
      | Some pl \<Rightarrow>
          (let placedPieces = filter used (pieces pl)
           in if length placedPieces = 0 then Inr (touchesCorner s row col b)
              else case scanCells b s row col pid False False of
                     Inl e \<Rightarrow> Inl e
                   | Inr (tc, te) \<Rightarrow> Inr (tc \<and> \<not> te)))"

text \<open>
  The first loop of \<^verbatim>\<open>canPlacePiece\<close>: \<open>Inr False\<close> is its early \<^verbatim>\<open>return false\<close>,
  \<open>Inr True\<close> means the loop ran to its end. \<^verbatim>\<open>||\<close> short-circuits, so \<^verbatim>\<open>isCellEmpty\<close> is
  only called on a valid position.
\<close>

fun cellsFree :: "board \<Rightarrow> shape \<Rightarrow> int \<Rightarrow> int \<Rightarrow> error + bool" where
  "cellsFree b [] row col = Inr True"
| "cellsFree b ((dx, dy) # rest) row col =
     (let newRow = row + dx; newCol = col + dy
      in if \<not> isValidPosition newRow newCol b then Inr False
         else case isCellEmpty newRow newCol b of
                Inl e \<Rightarrow> Inl e
              | Inr e0 \<Rightarrow> if \<not> e0 then Inr False else cellsFree b rest row col)"

definition canPlacePiece :: "board \<Rightarrow> piece \<Rightarrow> int \<Rightarrow> int \<Rightarrow> int \<Rightarrow> error + bool" where
  "canPlacePiece b p row col pid =
     (if used p then Inr False
      else let s = getTransformedShape p
           in case findPlayer b pid of
                None \<Rightarrow> Inr False
              | Some pl \<Rightarrow>
                  (case cellsFree b s row col of
                     Inl e \<Rightarrow> Inl e
                   | Inr free \<Rightarrow> if \<not> free then Inr False
                                 else isValidPlacement b s row col pid))"

section \<open>Mutation\<close>

text \<open>\<^verbatim>\<open>Array.prototype.indexOf\<close>: the first index holding the value, \<open>-1\<close> when there is none.\<close>

fun indexOf :: "int list \<Rightarrow> int \<Rightarrow> int" where
  "indexOf [] x = - 1"
| "indexOf (y # ys) x =
     (if y = x then 0 else (let i = indexOf ys x in if i < 0 then - 1 else i + 1))"

text \<open>
  \<^verbatim>\<open>getNextPlayer\<close>. On an empty player list \<^verbatim>\<open>% 0\<close> is \<^verbatim>\<open>NaN\<close> and the array read gives
  \<^verbatim>\<open>undefined\<close>; otherwise both operands of \<^verbatim>\<open>%\<close> are non-negative and it is \<open>mod\<close>.
\<close>

definition getNextPlayer :: "'g board_of \<Rightarrow> int \<Rightarrow> int option" where
  "getNextPlayer b currentPlayerId =
     (let playerIds = map id_player (players b);
          currentIndex = indexOf playerIds currentPlayerId
      in if length playerIds = 0 then None
         else (let nextIndex = (currentIndex + 1) mod int (length playerIds)
               in Some (playerIds ! nat nextIndex)))"

text \<open>
  \<^verbatim>\<open>newGrid[r][c] = v\<close>: a missing row throws a \<^verbatim>\<open>TypeError\<close>. A column outside the row
  would make JavaScript grow the row or add a property to it; \<^verbatim>\<open>placePiece\<close> never writes
  there (lemmas \<open>cellsFree_True_cells\<close> and \<open>stampCells_inGrid\<close> below: every cell that
  passed the emptiness check lies inside its row), and the model leaves the row as it is.
\<close>

definition rowSet :: "int list \<Rightarrow> int \<Rightarrow> int \<Rightarrow> int list" where
  "rowSet r c v = (if 0 \<le> c \<and> c < int (length r) then r[nat c := v] else r)"

definition gridWrite :: "int list list \<Rightarrow> int \<Rightarrow> int \<Rightarrow> int \<Rightarrow> error + int list list" where
  "gridWrite g r c v =
     (if 0 \<le> r \<and> r < int (length g) then Inr (g[nat r := rowSet (g ! nat r) c v])
      else Inl TypeError)"

fun stampCells :: "int list list \<Rightarrow> shape \<Rightarrow> int \<Rightarrow> int \<Rightarrow> int \<Rightarrow> error + int list list" where
  "stampCells g [] row col pid = Inr g"
| "stampCells g ((dx, dy) # rest) row col pid =
     (case gridWrite g (row + dx) (col + dy) pid of
        Inl e \<Rightarrow> Inl e
      | Inr g' \<Rightarrow> stampCells g' rest row col pid)"

text \<open>The two nested \<^verbatim>\<open>map\<close>s of \<^verbatim>\<open>placePiece\<close> over the players and their pieces.\<close>

definition markUsed :: "piece \<Rightarrow> piece list \<Rightarrow> piece list" where
  "markUsed p ps = map (\<lambda>q. if id_piece q = id_piece p then q\<lparr>used := True\<rparr> else q) ps"

definition updatePlayers :: "player list \<Rightarrow> piece \<Rightarrow> shape \<Rightarrow> int \<Rightarrow> player list" where
  "updatePlayers pls p s pid =
     map (\<lambda>pl. if id_player pl = pid
               then pl\<lparr>pieces := markUsed p (pieces pl),
                       score := score pl + int (length s)\<rparr>
               else pl) pls"

text \<open>
  \<^verbatim>\<open>placePiece\<close> on board values. \<open>now\<close> is the reading of \<^verbatim>\<open>Date.now()\<close>. The thrown
  \<^verbatim>\<open>Error('Invalid piece placement')\<close> is the spec's \<open>IllegalMove\<close>.
\<close>

definition IllegalMove :: error where
  "IllegalMove = Error ''Invalid piece placement''"

definition placePiece :: "int \<Rightarrow> board \<Rightarrow> piece \<Rightarrow> int \<Rightarrow> int \<Rightarrow> int \<Rightarrow> error + board" where
  "placePiece now b p row col pid =
     (case canPlacePiece b p row col pid of
        Inl e \<Rightarrow> Inl e
      | Inr ok \<Rightarrow>
          if \<not> ok then Inl (Error ''Invalid piece placement'')
          else (let s = getTransformedShape p
                in case stampCells (grid b) s row col pid of
                     Inl e \<Rightarrow> Inl e
                   | Inr newGrid \<Rightarrow>
                       (let newPlayers = updatePlayers (players b) p s pid;
                            mv = \<lparr>playerId = pid, pieceId = id_piece p, position = (row, col),
                                  shape_move = s, timestamp = now\<rparr>
                        in Inr (b\<lparr>grid := newGrid,
                                  players := newPlayers,
                                  moveHistory := moveHistory b @ [mv],
                                  lastMove := Some mv,
                                  currentPlayer := getNextPlayer b pid\<rparr>))))"

section \<open>The same mutation on a store of row arrays\<close>

text \<open>
  The only assignment to an existing object in the engine is
  \<^verbatim>\<open>newGrid[row + dx][col + dy] = playerId\<close>; every other object is built by a literal or by
  \<^verbatim>\<open>map\<close>/\<^verbatim>\<open>slice\<close>/spread and never assigned to. So the row arrays are the only objects
  that need addresses: a store maps an address to the row array held there, and a board
  in the store holds the addresses of its rows. \<open>nextFree\<close> is the allocation pointer.
\<close>

record store =
  rowAt :: "nat \<Rightarrow> int list"
  nextFree :: nat

type_synonym board_ref = "nat list board_of"

definition snapshot :: "store \<Rightarrow> board_ref \<Rightarrow> board" where
  "snapshot h br =
     \<lparr>grid = map (rowAt h) (grid br), size_board = size_board br, players = players br,
      currentPlayer = currentPlayer br, status = status br,
      moveHistory = moveHistory br, lastMove = lastMove br\<rparr>"

text \<open>\<^verbatim>\<open>board.grid.map(row => [...row])\<close>: one fresh array per row, holding a copy.\<close>

fun copyRows :: "store \<Rightarrow> nat list \<Rightarrow> store \<times> nat list" where
  "copyRows h [] = (h, [])"
| "copyRows h (a # as) =
     (let a' = nextFree h;
          h1 = h\<lparr>rowAt := (rowAt h)(a' := rowAt h a), nextFree := Suc a'\<rparr>;
          (h2, as') = copyRows h1 as
      in (h2, a' # as'))"

definition rowWrite :: "store \<Rightarrow> nat list \<Rightarrow> int \<Rightarrow> int \<Rightarrow> int \<Rightarrow> error + store" where
  "rowWrite h g r c v =
     (if 0 \<le> r \<and> r < int (length g)
      then (let a = g ! nat r in Inr (h\<lparr>rowAt := (rowAt h)(a := rowSet (rowAt h a) c v)\<rparr>))
      else Inl TypeError)"

text \<open>The stamping loop; an exception leaves the store as the writes before it made it.\<close>

fun stampCellsS :: "store \<Rightarrow> nat list \<Rightarrow> shape \<Rightarrow> int \<Rightarrow> int \<Rightarrow> int \<Rightarrow> error option \<times> store" where
  "stampCellsS h g [] row col pid = (None, h)"
| "stampCellsS h g ((dx, dy) # rest) row col pid =
     (case rowWrite h g (row + dx) (col + dy) pid of
        Inl e \<Rightarrow> (Some e, h)
      | Inr h' \<Rightarrow> stampCellsS h' g rest row col pid)"

text \<open>
  \<^verbatim>\<open>placePiece\<close> with the store threaded through: the result is the returned board or the
  exception, together with the store the call leaves behind. The checks only read, so
  they run on the snapshot of the argument.
\<close>

definition placePieceS ::
  "int \<Rightarrow> store \<Rightarrow> board_ref \<Rightarrow> piece \<Rightarrow> int \<Rightarrow> int \<Rightarrow> int \<Rightarrow> (error + board_ref) \<times> store" where
  "placePieceS now h br p row col pid =
     (case canPlacePiece (snapshot h br) p row col pid of
        Inl e \<Rightarrow> (Inl e, h)
      | Inr ok \<Rightarrow>
          if \<not> ok then (Inl (Error ''Invalid piece placement''), h)
          else (let s = getTransformedShape p;
                    (h1, newGrid) = copyRows h (grid br)
                in case stampCellsS h1 newGrid s row col pid of
                     (Some e, h2) \<Rightarrow> (Inl e, h2)
                   | (None, h2) \<Rightarrow>
                       (let newPlayers = updatePlayers (players br) p s pid;
                            mv = \<lparr>playerId = pid, pieceId = id_piece p, position = (row, col),
                                  shape_move = s, timestamp = now\<rparr>
                        in (Inr (br\<lparr>grid := newGrid,
                                     players := newPlayers,
                                     moveHistory := moveHistory br @ [mv],
                                     lastMove := Some mv,
                                     currentPlayer := getNextPlayer br pid\<rparr>), h2))))"

section \<open>Vocabulary of the specification\<close>

text \<open>
  A board whose grid really is \<open>size \<times> size\<close>, as every board built by \<^verbatim>\<open>createBoard\<close>,
  \<^verbatim>\<open>startGame\<close> and \<^verbatim>\<open>placePiece\<close> is. On such a board no grid read throws.
\<close>

definition wfGrid :: "board \<Rightarrow> bool" where
  "wfGrid b \<longleftrightarrow>
     length (grid b) = nat (size_board b) \<and>
     list_all (\<lambda>r. length r = nat (size_board b)) (grid b)"

text \<open>The absolute cells of a shape anchored at \<open>(row, col)\<close>.\<close>

definition absCells :: "shape \<Rightarrow> int \<Rightarrow> int \<Rightarrow> cell list" where
  "absCells s row col = map (\<lambda>(dx, dy). (row + dx, col + dy)) s"

text \<open>
  The specification's words: a cell of the board owned by a player; corner-touch (two cells
  differ by 1 in both row and column); edge-touch (they differ by 1 in exactly one axis
  and not at all in the other).
\<close>

definition ownedBy :: "board \<Rightarrow> int \<Rightarrow> cell \<Rightarrow> bool" where
  "ownedBy b pid = (\<lambda>(r, c). 0 \<le> r \<and> r < size_board b \<and> 0 \<le> c \<and> c < size_board b \<and>
                               grid b ! nat r ! nat c = pid)"

definition diagAdjacent :: "cell \<Rightarrow> cell \<Rightarrow> bool" where
  "diagAdjacent = (\<lambda>(r, c) (r', c'). \<bar>r' - r\<bar> = 1 \<and> \<bar>c' - c\<bar> = 1)"

definition orthAdjacent :: "cell \<Rightarrow> cell \<Rightarrow> bool" where
  "orthAdjacent = (\<lambda>(r, c) (r', c'). \<bar>r' - r\<bar> + \<bar>c' - c\<bar> = 1)"

definition cornerTouch :: "board \<Rightarrow> int \<Rightarrow> cell list \<Rightarrow> bool" where
  "cornerTouch b pid cells \<longleftrightarrow> (\<exists>x \<in> set cells. \<exists>y. diagAdjacent x y \<and> ownedBy b pid y)"

definition edgeTouch :: "board \<Rightarrow> int \<Rightarrow> cell list \<Rightarrow> bool" where
  "edgeTouch b pid cells \<longleftrightarrow> (\<exists>x \<in> set cells. \<exists>y. orthAdjacent x y \<and> ownedBy b pid y)"

text \<open>
  The sum of the cell counts of a player's used pieces, the score invariant of the
  specification, and the boards reachable as claim C6 words it: from \<^verbatim>\<open>createBoard\<close>, by
  \<^verbatim>\<open>startGame\<close> and successful \<^verbatim>\<open>placePiece\<close> calls with any arguments.
\<close>

definition usedCells :: "player \<Rightarrow> int" where
  "usedCells pl = sum_list (map (\<lambda>q. int (length (shape q))) (filter used (pieces pl)))"

definition scoreInv :: "board \<Rightarrow> bool" where
  "scoreInv b \<longleftrightarrow> list_all (\<lambda>pl. score pl = usedCells pl) (players b)"

inductive reachable :: "board \<Rightarrow> bool" where
  created: "reachable createBoard"
| started: "reachable b \<Longrightarrow> startGame b playerCount = Inr b' \<Longrightarrow> reachable b'"
| placed: "reachable b \<Longrightarrow> placePiece now b p row col pid = Inr b' \<Longrightarrow> reachable b'"

text \<open>
  The piece handed to \<^verbatim>\<open>placePiece\<close> is one of the acting player's pieces on this board,
  up to its rotation and flip state (as the user interface and \<^verbatim>\<open>canPlayerMove\<close> pass it),
  and the boards reachable by such calls only.
\<close>

definition ownPiece :: "board \<Rightarrow> int \<Rightarrow> piece \<Rightarrow> bool" where
  "ownPiece b pid p \<longleftrightarrow>
     (case findPlayer b pid of
        None \<Rightarrow> False
      | Some pl \<Rightarrow> list_ex (\<lambda>q. p = q\<lparr>rotation := rotation p, flipped := flipped p\<rparr>) (pieces pl))"

inductive reachableOwn :: "board \<Rightarrow> bool" where
  created: "reachableOwn createBoard"
| started: "reachableOwn b \<Longrightarrow> startGame b playerCount = Inr b' \<Longrightarrow> reachableOwn b'"
| placed: "reachableOwn b \<Longrightarrow> ownPiece b pid p \<Longrightarrow>
           placePiece now b p row col pid = Inr b' \<Longrightarrow> reachableOwn b'"

text \<open>The invariant that carries the induction: ids are unique, scores match.\<close>

definition boardInv :: "board \<Rightarrow> bool" where
  "boardInv b \<longleftrightarrow>
     distinct (map id_player (players b)) \<and>
     (\<forall>pl \<in> set (players b). distinct (map id_piece (pieces pl)) \<and> score pl = usedCells pl)"

text \<open>A cell that lies inside the grid as it really is (whatever \<^verbatim>\<open>size\<close> says).\<close>

definition inGrid :: "int list list \<Rightarrow> cell \<Rightarrow> bool" where
  "inGrid g = (\<lambda>(r, c). 0 \<le> r \<and> r < int (length g) \<and> 0 \<le> c \<and> c < int (length (g ! nat r)))"

section \<open>Example boards\<close>

definition startedBoard :: board where
  "startedBoard = projr (startGame createBoard 4)"

definition pieceI1 :: piece where
  "pieceI1 = getAllPieces ! 0"

definition pieceI2 :: piece where
  "pieceI2 = getAllPieces ! 1"

text \<open>Player 1 has placed \<^verbatim>\<open>I1\<close> on the corner (0,0).\<close>

definition boardAfterI1 :: board where
  "boardAfterI1 = projr (placePiece 0 startedBoard pieceI1 0 0 1)"

text \<open>The same board with a cell of player 2 at (1,2).\<close>

definition boardWithOpponent :: board where
  "boardWithOpponent =
     boardAfterI1\<lparr>grid := (grid boardAfterI1)[1 := (grid boardAfterI1 ! 1)[2 := 2]]\<rparr>"

text \<open>Player 1 has placed the piece object \<^verbatim>\<open>I1\<close> of the fresh board a second time, on (1,1).\<close>

definition boardTwiceI1 :: board where
  "boardTwiceI1 = projr (placePiece 1 boardAfterI1 pieceI1 1 1 1)"

text \<open>The started board with its status set to finished.\<close>

definition finishedBoard :: board where
  "finishedBoard = startedBoard\<lparr>status := FINISHED\<rparr>"

text \<open>
  The started board laid out in a store: its twenty rows at the addresses 0 to 19, the
  next allocation at 20.
\<close>

definition exampleStore :: store where
  "exampleStore = \<lparr>rowAt = (\<lambda>a. if a < 20 then replicate 20 0 else []), nextFree = 20\<rparr>"

definition startedRef :: board_ref where
  "startedRef =
     \<lparr>grid = [0..<20], size_board = size_board startedBoard, players = players startedBoard,
      currentPlayer = currentPlayer startedBoard, status = status startedBoard,
      moveHistory = moveHistory startedBoard, lastMove = lastMove startedBoard\<rparr>"

definition finishedRef :: board_ref where
  "finishedRef = startedRef\<lparr>status := FINISHED\<rparr>"

section \<open>Properties of the catalog and of rotation\<close>

lemma PIECE_SHAPES_length: "length PIECE_SHAPES = 21"
  by (simp add: PIECE_SHAPES_def)

text \<open>
  Claim C8. For every shape of the 21-entry catalog, four successive applications of
  \<^verbatim>\<open>rotatePiece\<close> give back a shape with the same set of (row, col) offsets as the
  original (here even the same list, in the same order).
\<close>

theorem rotate_four_times_catalog:
  "length PIECE_SHAPES = 21 \<and>
   (\<forall>(k, s) \<in> set PIECE_SHAPES.
      set (rotatePiece (rotatePiece (rotatePiece (rotatePiece s)))) = set s \<and>
      rotatePiece (rotatePiece (rotatePiece (rotatePiece s))) = s)"
  by (simp add: PIECE_SHAPES_def rotatePiece_def)

theorem rotate_four_times_catalog_witness:
  "set (rotatePiece (rotatePiece (rotatePiece (rotatePiece [(0, 0), (1, 0), (2, 0), (0, 1)]))))
     = set [(0, 0), (1, 0), (2, 0), (0, 1)]"
proof -
  have m: "(''L4'', [(0, 0), (1, 0), (2, 0), (0, 1)]) \<in> set PIECE_SHAPES"
    by (simp add: PIECE_SHAPES_def)
  from rotate_four_times_catalog have
    "\<forall>(k, s) \<in> set PIECE_SHAPES.
       set (rotatePiece (rotatePiece (rotatePiece (rotatePiece s)))) = set s \<and>
       rotatePiece (rotatePiece (rotatePiece (rotatePiece s))) = s" ..
  from bspec [OF this m] show ?thesis by simp
qed

text \<open>
  Claim C9, as stated, fails: the catalog entry \<^verbatim>\<open>X5\<close> (the plus shape) starts with the
  cell (1,0), not (0,0).
\<close>

theorem first_cell_X5_counterexample:
  "map_of PIECE_SHAPES ''X5'' = Some [(1, 0), (0, 1), (1, 1), (2, 1), (1, 2)] \<and>
   hd [(1, 0), (0, 1), (1, 1), (2, 1), (1, 2)] \<noteq> ((0, 0) :: int \<times> int)"
  by (simp add: PIECE_SHAPES_def)

text \<open>
  Claim C9, amended. In every entry of the catalog other than \<^verbatim>\<open>X5\<close> and \<^verbatim>\<open>F5\<close> the first
  cell of the base shape is (0,0); the first cell of \<^verbatim>\<open>X5\<close> and of \<^verbatim>\<open>F5\<close> is (1,0), since
  neither shape contains the cell (0,0) of its bounding box.
\<close>

theorem first_cell_catalog:
  "\<forall>(k, s) \<in> set PIECE_SHAPES.
     s \<noteq> [] \<and> hd s = (if k = ''X5'' \<or> k = ''F5'' then (1, 0) else (0, 0)) \<and>
     ((0, 0) \<in> set s \<longleftrightarrow> k \<noteq> ''X5'' \<and> k \<noteq> ''F5'')"
  by (simp add: PIECE_SHAPES_def)

theorem first_cell_catalog_witness:
  "hd [(0, 0), (1, 0), (1, 1), (2, 1)] = ((0, 0) :: int \<times> int)"
proof -
  have m: "(''S4'', [(0, 0), (1, 0), (1, 1), (2, 1)]) \<in> set PIECE_SHAPES"
    by (simp add: PIECE_SHAPES_def)
  from bspec [OF first_cell_catalog m] show ?thesis by simp
qed

section \<open>Placement validation on well-formed boards\<close>

lemma gridRead_wf:
  "wfGrid b \<Longrightarrow> isValidPosition r c b \<Longrightarrow> gridRead (grid b) r c = Inr (Some (grid b ! nat r ! nat c))"
  by (auto simp: wfGrid_def isValidPosition_def gridRead_def list_all_length Let_def)

lemma touchesOffsets_wf:
  "wfGrid b \<Longrightarrow> touchesOffsets offs row col b pid
                 = Inr (\<exists>(dx, dy) \<in> set offs. ownedBy b pid (row + dx, col + dy))"
proof (induction offs)
  case Nil
  then show ?case by simp
next
  case (Cons o1 offs)
  obtain dx dy where o1: "o1 = (dx, dy)" by (cases o1)
  show ?case
  proof (cases "isValidPosition (row + dx) (col + dy) b")
    case True
    with Cons show ?thesis
      by (auto simp: o1 gridRead_wf ownedBy_def isValidPosition_def)
  next
    case False
    with Cons show ?thesis
      by (auto simp: o1 ownedBy_def isValidPosition_def)
  qed
qed

lemma diag_offsets:
  "diagAdjacent (r, c) y \<longleftrightarrow> y \<in> {(r + (-1), c + (-1)), (r + (-1), c + 1), (r + 1, c + (-1)), (r + 1, c + 1)}"
  by (cases y) (auto simp: diagAdjacent_def)

lemma orth_offsets:
  "orthAdjacent (r, c) y \<longleftrightarrow> y \<in> {(r + (-1), c + 0), (r + 1, c + 0), (r + 0, c + (-1)), (r + 0, c + 1)}"
  by (cases y) (auto simp: orthAdjacent_def)

lemma touchesPlayerCorner_wf:
  "wfGrid b \<Longrightarrow> touchesPlayerCorner row col b pid
                 = Inr (\<exists>y. diagAdjacent (row, col) y \<and> ownedBy b pid y)"
  unfolding touchesPlayerCorner_def
  by (subst touchesOffsets_wf, assumption) (auto simp: diag_offsets)

lemma touchesPlayerEdge_wf:
  "wfGrid b \<Longrightarrow> touchesPlayerEdge row col b pid
                 = Inr (\<exists>y. orthAdjacent (row, col) y \<and> ownedBy b pid y)"
  unfolding touchesPlayerEdge_def
  by (subst touchesOffsets_wf, assumption) (auto simp: orth_offsets)

lemma scanCells_wf:
  "wfGrid b \<Longrightarrow> scanCells b s row col pid tc te
     = Inr (tc \<or> cornerTouch b pid (absCells s row col), te \<or> edgeTouch b pid (absCells s row col))"
proof (induction s arbitrary: tc te)
  case Nil
  then show ?case by (simp add: cornerTouch_def edgeTouch_def absCells_def)
next
  case (Cons x s)
  obtain dx dy where x: "x = (dx, dy)" by (cases x)
  from Cons show ?case
    by (simp add: x touchesPlayerCorner_wf touchesPlayerEdge_wf cornerTouch_def edgeTouch_def
        absCells_def Let_def disj_assoc)
qed

lemma cellsFree_wf:
  "wfGrid b \<Longrightarrow> cellsFree b s row col
     = Inr (\<forall>(r, c) \<in> set (absCells s row col). isValidPosition r c b \<and> grid b ! nat r ! nat c = 0)"
proof (induction s)
  case Nil
  then show ?case by (simp add: absCells_def)
next
  case (Cons x s)
  obtain dx dy where x: "x = (dx, dy)" by (cases x)
  show ?case
  proof (cases "isValidPosition (row + dx) (col + dy) b")
    case True
    with Cons show ?thesis
      by (auto simp: x absCells_def isCellEmpty_def gridRead_wf)
  next
    case False
    then show ?thesis by (simp add: x absCells_def)
  qed
qed


lemma touchesCorner_iff:
  "touchesCorner s row col b \<longleftrightarrow>
     (\<exists>x \<in> set (absCells s row col).
        x \<in> {(0, 0), (0, size_board b - 1), (size_board b - 1, 0),
             (size_board b - 1, size_board b - 1)})"
  by (simp add: touchesCorner_def absCells_def list_ex_iff Let_def split_beta)

lemma canPlacePiece_first:
  assumes "findPlayer b pid = Some pl" and "filter used (pieces pl) = []" and "\<not> used p"
    and "cellsFree b (getTransformedShape p) row col = Inr True"
  shows "canPlacePiece b p row col pid = Inr (touchesCorner (getTransformedShape p) row col b)"
  using assms by (simp add: canPlacePiece_def isValidPlacement_def Let_def)

lemma canPlacePiece_later:
  assumes "wfGrid b" and "findPlayer b pid = Some pl" and "filter used (pieces pl) \<noteq> []" and "\<not> used p"
    and "cellsFree b (getTransformedShape p) row col = Inr True"
  shows "canPlacePiece b p row col pid =
           Inr (cornerTouch b pid (absCells (getTransformedShape p) row col) \<and>
                \<not> edgeTouch b pid (absCells (getTransformedShape p) row col))"
  using assms by (simp add: canPlacePiece_def isValidPlacement_def Let_def scanCells_wf)

lemma ownedBy_agree:
  assumes "wfGrid b" and "wfGrid b'" and "size_board b' = size_board b"
    and eq: "map (map (\<lambda>v. v = pid)) (grid b') = map (map (\<lambda>v. v = pid)) (grid b)"
  shows "ownedBy b' pid y = ownedBy b pid y"
proof (cases y)
  case (Pair r c)
  show ?thesis
  proof (cases "0 \<le> r \<and> r < size_board b \<and> 0 \<le> c \<and> c < size_board b")
    case True
    then have r: "nat r < length (grid b)" "nat r < length (grid b')"
      and c: "nat c < length (grid b ! nat r)" "nat c < length (grid b' ! nat r)"
      using assms(1,2,3) by (auto simp: wfGrid_def list_all_length)
    have "(grid b' ! nat r ! nat c = pid) = map (map (\<lambda>v. v = pid)) (grid b') ! nat r ! nat c"
      using r c by simp
    also have "\<dots> = map (map (\<lambda>v. v = pid)) (grid b) ! nat r ! nat c"
      by (simp only: eq)
    also have "\<dots> = (grid b ! nat r ! nat c = pid)"
      using r c by simp
    finally show ?thesis
      using True assms(3) by (simp add: Pair ownedBy_def)
  next
    case False
    then show ?thesis using assms(3) by (auto simp: Pair ownedBy_def)
  qed
qed

text \<open>
  Claim C1. On a well-formed board, for a player found on the board with at least one used
  piece and an unused piece whose absolute cells are all in bounds and empty,
  \<^verbatim>\<open>canPlacePiece\<close> returns \<^verbatim>\<open>true\<close> exactly when some absolute cell is diagonally adjacent
  to a cell the player owns and no absolute cell is orthogonally adjacent to one. Cells of
  other players do not matter: a second board \<open>b'\<close> of the same size and players, on which
  the piece also fits and the player owns exactly the same cells, gets the same verdict.
\<close>

theorem canPlacePiece_adjacency_rule:
  assumes "wfGrid b" and "findPlayer b pid = Some pl" and "filter used (pieces pl) \<noteq> []"
    and "\<not> used p"
    and "\<forall>(r, c) \<in> set (absCells (getTransformedShape p) row col).
           isValidPosition r c b \<and> grid b ! nat r ! nat c = 0"
    and "wfGrid b'" and "size_board b' = size_board b" and "players b' = players b"
    and "\<forall>(r, c) \<in> set (absCells (getTransformedShape p) row col). grid b' ! nat r ! nat c = 0"
    and "map (map (\<lambda>v. v = pid)) (grid b') = map (map (\<lambda>v. v = pid)) (grid b)"
  shows "canPlacePiece b p row col pid =
           Inr (cornerTouch b pid (absCells (getTransformedShape p) row col) \<and>
                \<not> edgeTouch b pid (absCells (getTransformedShape p) row col)) \<and>
         canPlacePiece b' p row col pid = canPlacePiece b p row col pid"
proof -
  let ?cells = "absCells (getTransformedShape p) row col"
  have free: "cellsFree b (getTransformedShape p) row col = Inr True"
    using assms(1,5) by (simp add: cellsFree_wf)
  have free': "cellsFree b' (getTransformedShape p) row col = Inr True"
    using assms(5,6,7,9) by (auto simp: cellsFree_wf isValidPosition_def)
  have pl': "findPlayer b' pid = Some pl"
    using assms(2,8) by (simp add: findPlayer_def)
  have own: "\<And>y. ownedBy b' pid y = ownedBy b pid y"
    using assms(1,6,7,10) by (rule ownedBy_agree)
  have one: "canPlacePiece b p row col pid =
               Inr (cornerTouch b pid ?cells \<and> \<not> edgeTouch b pid ?cells)"
    using assms(1,2,3,4) free by (rule canPlacePiece_later)
  have two: "canPlacePiece b' p row col pid =
               Inr (cornerTouch b' pid ?cells \<and> \<not> edgeTouch b' pid ?cells)"
    using assms(6) pl' assms(3,4) free' by (rule canPlacePiece_later)
  have "cornerTouch b' pid ?cells = cornerTouch b pid ?cells"
    and "edgeTouch b' pid ?cells = edgeTouch b pid ?cells"
    by (simp_all add: cornerTouch_def edgeTouch_def own)
  with one two show ?thesis by simp
qed

theorem canPlacePiece_adjacency_rule_witness:
  "canPlacePiece boardAfterI1 pieceI2 1 1 1 =
     Inr (cornerTouch boardAfterI1 1 [(1, 1), (2, 1)] \<and> \<not> edgeTouch boardAfterI1 1 [(1, 1), (2, 1)]) \<and>
   canPlacePiece boardWithOpponent pieceI2 1 1 1 = canPlacePiece boardAfterI1 pieceI2 1 1 1 \<and>
   canPlacePiece boardAfterI1 pieceI2 1 1 1 = Inr True \<and>
   grid boardWithOpponent ! 1 ! 2 = 2"
proof -
  have h1: "wfGrid boardAfterI1" by code_simp
  have h2: "findPlayer boardAfterI1 1 = Some (hd (players boardAfterI1))" by code_simp
  have h3: "filter used (pieces (hd (players boardAfterI1))) \<noteq> []" by code_simp
  have h4: "\<not> used pieceI2" by code_simp
  have h5: "\<forall>(r, c) \<in> set (absCells (getTransformedShape pieceI2) 1 1).
              isValidPosition r c boardAfterI1 \<and> grid boardAfterI1 ! nat r ! nat c = 0"
    by code_simp
  have h6: "wfGrid boardWithOpponent" by code_simp
  have h7: "size_board boardWithOpponent = size_board boardAfterI1" by code_simp
  have h8: "players boardWithOpponent = players boardAfterI1" by code_simp
  have h9: "\<forall>(r, c) \<in> set (absCells (getTransformedShape pieceI2) 1 1).
              grid boardWithOpponent ! nat r ! nat c = 0"
    by code_simp
  have h10: "map (map (\<lambda>v. v = 1)) (grid boardWithOpponent)
               = map (map (\<lambda>v. v = 1)) (grid boardAfterI1)"
    by code_simp
  have cells: "absCells (getTransformedShape pieceI2) 1 1 = [(1, 1), (2, 1)]" by code_simp
  have v: "canPlacePiece boardAfterI1 pieceI2 1 1 1 = Inr True" by code_simp
  have g: "grid boardWithOpponent ! 1 ! 2 = 2" by code_simp
  from canPlacePiece_adjacency_rule [OF h1 h2 h3 h4 h5 h6 h7 h8 h9 h10] cells v g
  show ?thesis by simp
qed

text \<open>
  Claim C2. For a player found on the board with no used piece, and an unused piece whose
  absolute cells are all in bounds and empty, \<^verbatim>\<open>canPlacePiece\<close> returns \<^verbatim>\<open>true\<close> exactly when
  some absolute cell is one of the four board corners.
\<close>

theorem canPlacePiece_first_piece_corner:
  assumes "wfGrid b" and "findPlayer b pid = Some pl" and "filter used (pieces pl) = []"
    and "\<not> used p"
    and "\<forall>(r, c) \<in> set (absCells (getTransformedShape p) row col).
           isValidPosition r c b \<and> grid b ! nat r ! nat c = 0"
  shows "canPlacePiece b p row col pid =
           Inr (\<exists>x \<in> set (absCells (getTransformedShape p) row col).
                  x \<in> {(0, 0), (0, size_board b - 1), (size_board b - 1, 0),
                       (size_board b - 1, size_board b - 1)})"
proof -
  have "cellsFree b (getTransformedShape p) row col = Inr True"
    using assms(1,5) by (simp add: cellsFree_wf)
  with assms(2,3,4) have "canPlacePiece b p row col pid
      = Inr (touchesCorner (getTransformedShape p) row col b)"
    by (rule canPlacePiece_first)
  then show ?thesis by (simp only: touchesCorner_iff)
qed

theorem canPlacePiece_first_piece_corner_witness:
  "canPlacePiece startedBoard pieceI1 0 0 1 = Inr True \<and>
   canPlacePiece startedBoard pieceI1 5 5 1 = Inr False \<and>
   canPlacePiece startedBoard pieceI2 18 19 2 = Inr True"
proof -
  have h1: "wfGrid startedBoard" by code_simp
  have h2: "findPlayer startedBoard 1 = Some (players startedBoard ! 0)" by code_simp
  have h2': "findPlayer startedBoard 2 = Some (players startedBoard ! 1)" by code_simp
  have h3: "filter used (pieces (players startedBoard ! 0)) = []" by code_simp
  have h3': "filter used (pieces (players startedBoard ! 1)) = []" by code_simp
  have h4: "\<not> used pieceI1" by code_simp
  have h4': "\<not> used pieceI2" by code_simp
  have h5: "\<forall>(r, c) \<in> set (absCells (getTransformedShape pieceI1) 0 0).
              isValidPosition r c startedBoard \<and> grid startedBoard ! nat r ! nat c = 0"
    by code_simp
  have h6: "\<forall>(r, c) \<in> set (absCells (getTransformedShape pieceI1) 5 5).
              isValidPosition r c startedBoard \<and> grid startedBoard ! nat r ! nat c = 0"
    by code_simp
  have h7: "\<forall>(r, c) \<in> set (absCells (getTransformedShape pieceI2) 18 19).
              isValidPosition r c startedBoard \<and> grid startedBoard ! nat r ! nat c = 0"
    by code_simp
  have c1: "absCells (getTransformedShape pieceI1) 0 0 = [(0, 0)]" by code_simp
  have c2: "absCells (getTransformedShape pieceI1) 5 5 = [(5, 5)]" by code_simp
  have c3: "absCells (getTransformedShape pieceI2) 18 19 = [(18, 19), (19, 19)]" by code_simp
  have sz: "size_board startedBoard = 20" by code_simp
  from canPlacePiece_first_piece_corner [OF h1 h2 h3 h4 h5]
       canPlacePiece_first_piece_corner [OF h1 h2 h3 h4 h6]
       canPlacePiece_first_piece_corner [OF h1 h2' h3' h4' h7]
  show ?thesis by (simp add: c1 c2 c3 sz)
qed

section \<open>Stamping the grid and advancing the turn\<close>

lemma gridRead_Some_inGrid: "gridRead g r c = Inr (Some v) \<Longrightarrow> inGrid g (r, c)"
  by (auto simp: gridRead_def inGrid_def Let_def split: if_splits)

lemma gridWrite_inGrid:
  assumes "inGrid g (r, c)"
  shows "\<exists>g'. gridWrite g r c v = Inr g' \<and>
           (\<forall>r' c'. gridRead g' r' c' = (if (r', c') = (r, c) then Inr (Some v) else gridRead g r' c')) \<and>
           (\<forall>x. inGrid g' x = inGrid g x)"
proof -
  let ?g' = "g[nat r := rowSet (g ! nat r) c v]"
  from assms have r: "0 \<le> r" "nat r < length g" "r < int (length g)"
    and c: "0 \<le> c" "nat c < length (g ! nat r)" "c < int (length (g ! nat r))"
    by (auto simp: inGrid_def)
  have w: "gridWrite g r c v = Inr ?g'"
    using r by (simp add: gridWrite_def)
  have len: "length ?g' = length g" by simp
  have rowlen: "length (?g' ! k) = length (g ! k)" for k
    using r by (cases "k = nat r") (auto simp: rowSet_def)
  have rd: "gridRead ?g' r' c' = (if (r', c') = (r, c) then Inr (Some v) else gridRead g r' c')"
    for r' c'
  proof (cases "0 \<le> r' \<and> r' < int (length g)")
    case False
    then show ?thesis using r by (auto simp: gridRead_def)
  next
    case True
    show ?thesis
    proof (cases "r' = r")
      case False
      with True r have "nat r' \<noteq> nat r" by auto
      with True False show ?thesis by (simp add: gridRead_def)
    next
      case rr: True
      show ?thesis
      proof (cases "c' = c")
        case True
        with rr r c show ?thesis by (simp add: gridRead_def rowSet_def)
      next
        case False
        then have "0 \<le> c' \<Longrightarrow> nat c' \<noteq> nat c" using c by auto
        with rr r c False show ?thesis by (auto simp: gridRead_def rowSet_def Let_def)
      qed
    qed
  qed
  have ig: "inGrid ?g' x = inGrid g x" for x
    by (cases x) (simp add: inGrid_def rowlen)
  from w rd ig show ?thesis by blast
qed

lemma stampCells_inGrid:
  assumes "\<forall>x \<in> set (absCells s row col). inGrid g x"
  shows "\<exists>g'. stampCells g s row col pid = Inr g' \<and>
           (\<forall>r c. gridRead g' r c =
                    (if (r, c) \<in> set (absCells s row col) then Inr (Some pid) else gridRead g r c))"
  using assms
proof (induction s arbitrary: g)
  case Nil
  then show ?case by (simp add: absCells_def)
next
  case (Cons x s)
  obtain dx dy where x: "x = (dx, dy)" by (cases x)
  from Cons.prems have here: "inGrid g (row + dx, col + dy)"
    and rest: "\<forall>y \<in> set (absCells s row col). inGrid g y"
    by (simp_all add: x absCells_def)
  from gridWrite_inGrid [OF here, of pid] obtain g1 where
    w: "gridWrite g (row + dx) (col + dy) pid = Inr g1"
    and rd: "\<And>r' c'. gridRead g1 r' c' =
               (if (r', c') = (row + dx, col + dy) then Inr (Some pid) else gridRead g r' c')"
    and ig: "\<And>y. inGrid g1 y = inGrid g y"
    by blast
  from rest ig have "\<forall>y \<in> set (absCells s row col). inGrid g1 y" by simp
  from Cons.IH [OF this] obtain g' where
    st: "stampCells g1 s row col pid = Inr g'"
    and rd': "\<And>r c. gridRead g' r c =
               (if (r, c) \<in> set (absCells s row col) then Inr (Some pid) else gridRead g1 r c)"
    by blast
  have "stampCells g (x # s) row col pid = Inr g'"
    using w st by (simp add: x)
  moreover have "gridRead g' r c =
      (if (r, c) \<in> set (absCells (x # s) row col) then Inr (Some pid) else gridRead g r c)" for r c
    by (auto simp: rd' rd x absCells_def)
  ultimately show ?case by blast
qed

lemma cellsFree_True_cells:
  "cellsFree b s row col = Inr True \<Longrightarrow>
     \<forall>(r, c) \<in> set (absCells s row col).
        isValidPosition r c b \<and> gridRead (grid b) r c = Inr (Some 0)"
proof (induction s)
  case Nil
  then show ?case by (simp add: absCells_def)
next
  case (Cons x s)
  obtain dx dy where x: "x = (dx, dy)" by (cases x)
  from Cons.prems have v: "isValidPosition (row + dx) (col + dy) b"
    by (auto simp: x Let_def split: if_splits)
  with Cons.prems have e: "isCellEmpty (row + dx) (col + dy) b = Inr True"
    and r: "cellsFree b s row col = Inr True"
    by (auto simp: x Let_def split: if_splits sum.splits)
  from e v have "gridRead (grid b) (row + dx) (col + dy) = Inr (Some 0)"
    by (auto simp: isCellEmpty_def split: sum.splits)
  with v Cons.IH [OF r] show ?case by (simp add: x absCells_def)
qed

lemma canPlacePiece_True_D:
  assumes "canPlacePiece b p row col pid = Inr True"
  shows "\<not> used p" and "\<exists>pl. findPlayer b pid = Some pl"
    and "cellsFree b (getTransformedShape p) row col = Inr True"
  using assms
  by (auto simp: canPlacePiece_def Let_def split: if_splits option.splits sum.splits)


lemma indexOf_first:
  "x \<in> set xs \<Longrightarrow>
     \<exists>i < length xs. indexOf xs x = int i \<and> xs ! i = x \<and> (\<forall>j < i. xs ! j \<noteq> x)"
proof (induction xs)
  case Nil
  then show ?case by simp
next
  case (Cons y ys)
  show ?case
  proof (cases "y = x")
    case True
    then show ?thesis by auto
  next
    case False
    with Cons.prems have "x \<in> set ys" by simp
    from Cons.IH [OF this] obtain i where
      i: "i < length ys" "indexOf ys x = int i" "ys ! i = x" "\<forall>j < i. ys ! j \<noteq> x"
      by blast
    have "\<forall>j < Suc i. (y # ys) ! j \<noteq> x"
      using False i(4) by (auto simp: nth_Cons split: nat.splits)
    with False i show ?thesis
      by (intro exI [of _ "Suc i"]) (simp add: Let_def)
  qed
qed

lemma findPlayer_Some_mem:
  "findPlayer b pid = Some pl \<Longrightarrow> pl \<in> set (players b) \<and> id_player pl = pid"
  by (auto simp: findPlayer_def find_Some_iff)

lemma getNextPlayer_successor:
  assumes "findPlayer b pid = Some pl"
  shows "\<exists>i < length (players b).
           id_player (players b ! i) = pid \<and>
           (\<forall>j < i. id_player (players b ! j) \<noteq> pid) \<and>
           getNextPlayer b pid
             = Some (id_player (players b ! ((i + 1) mod length (players b))))"
proof -
  let ?ids = "map id_player (players b)"
  from findPlayer_Some_mem [OF assms] have "pid \<in> set ?ids" by auto
  from indexOf_first [OF this] obtain i where
    i: "i < length ?ids" "indexOf ?ids pid = int i" "?ids ! i = pid" "\<forall>j < i. ?ids ! j \<noteq> pid"
    by blast
  from i(1) have n: "length (players b) \<noteq> 0" by auto
  have m: "(i + 1) mod length (players b) < length (players b)"
    using n by simp
  have "(int i + 1) mod int (length (players b)) = int ((i + 1) mod length (players b))"
    by (simp add: zmod_int add.commute)
  then have "getNextPlayer b pid
      = Some (id_player (players b ! ((i + 1) mod length (players b))))"
    using i(2) n m by (simp add: getNextPlayer_def Let_def)
  moreover have "id_player (players b ! i) = pid" using i(1,3) by simp
  moreover have "\<forall>j < i. id_player (players b ! j) \<noteq> pid" using i(1,4) by auto
  ultimately show ?thesis using i(1) by auto
qed

lemma placePiece_success:
  assumes "canPlacePiece b p row col pid = Inr True"
  shows "\<exists>g'. stampCells (grid b) (getTransformedShape p) row col pid = Inr g' \<and>
           (\<forall>r c. gridRead g' r c =
                    (if (r, c) \<in> set (absCells (getTransformedShape p) row col)
                     then Inr (Some pid) else gridRead (grid b) r c)) \<and>
           placePiece now b p row col pid =
             Inr (b\<lparr>grid := g',
                    players := updatePlayers (players b) p (getTransformedShape p) pid,
                    moveHistory := moveHistory b @
                      [\<lparr>playerId = pid, pieceId = id_piece p, position = (row, col),
                        shape_move = getTransformedShape p, timestamp = now\<rparr>],
                    lastMove := Some \<lparr>playerId = pid, pieceId = id_piece p, position = (row, col),
                        shape_move = getTransformedShape p, timestamp = now\<rparr>,
                    currentPlayer := getNextPlayer b pid\<rparr>)"
proof -
  let ?s = "getTransformedShape p"
  from canPlacePiece_True_D(3) [OF assms] have "cellsFree b ?s row col = Inr True" .
  from cellsFree_True_cells [OF this]
  have "\<forall>x \<in> set (absCells ?s row col). inGrid (grid b) x"
    by (auto dest: gridRead_Some_inGrid)
  from stampCells_inGrid [OF this, of pid] obtain g' where
    st: "stampCells (grid b) ?s row col pid = Inr g'"
    and rd: "\<forall>r c. gridRead g' r c =
               (if (r, c) \<in> set (absCells ?s row col) then Inr (Some pid)
                else gridRead (grid b) r c)"
    by blast
  from assms st have "placePiece now b p row col pid =
             Inr (b\<lparr>grid := g',
                    players := updatePlayers (players b) p ?s pid,
                    moveHistory := moveHistory b @
                      [\<lparr>playerId = pid, pieceId = id_piece p, position = (row, col),
                        shape_move = ?s, timestamp = now\<rparr>],
                    lastMove := Some \<lparr>playerId = pid, pieceId = id_piece p, position = (row, col),
                        shape_move = ?s, timestamp = now\<rparr>,
                    currentPlayer := getNextPlayer b pid\<rparr>)"
    by (simp add: placePiece_def Let_def)
  with st rd show ?thesis by blast
qed

lemma updatePlayers_nth:
  assumes "i < length pls"
  shows "id_player (updatePlayers pls p s pid ! i) = id_player (pls ! i) \<and>
         color (updatePlayers pls p s pid ! i) = color (pls ! i) \<and>
         (if id_player (pls ! i) = pid
          then score (updatePlayers pls p s pid ! i) = score (pls ! i) + int (length s) \<and>
               length (pieces (updatePlayers pls p s pid ! i)) = length (pieces (pls ! i)) \<and>
               (\<forall>j < length (pieces (pls ! i)).
                  pieces (updatePlayers pls p s pid ! i) ! j =
                    (if id_piece (pieces (pls ! i) ! j) = id_piece p
                     then (pieces (pls ! i) ! j)\<lparr>used := True\<rparr>
                     else pieces (pls ! i) ! j))
          else updatePlayers pls p s pid ! i = pls ! i)"
  using assms by (simp add: updatePlayers_def markUsed_def)

text \<open>
  Claim C4. Whenever \<^verbatim>\<open>canPlacePiece\<close> holds, \<^verbatim>\<open>placePiece\<close> returns a board on which exactly
  the absolute cells of the resolved shape read \<open>playerId\<close> and every other grid read is
  as before; every player with that id has the score raised by the number of cells of
  the resolved shape and the pieces carrying the placed piece's id marked used, all other
  players and pieces being untouched; the move record is appended to the history and is
  the last move; and \<^verbatim>\<open>currentPlayer\<close> is the id that follows the first occurrence of
  \<open>playerId\<close> in the player list, wrapping around.
\<close>

theorem placePiece_effect:
  assumes ok: "canPlacePiece b p row col pid = Inr True"
    and s: "s = getTransformedShape p"
    and mv: "mv = \<lparr>playerId = pid, pieceId = id_piece p, position = (row, col),
                    shape_move = s, timestamp = now\<rparr>"
  shows "\<exists>b'. placePiece now b p row col pid = Inr b' \<and>
           (\<forall>r c. gridRead (grid b') r c =
                    (if (r, c) \<in> set (absCells s row col) then Inr (Some pid)
                     else gridRead (grid b) r c)) \<and>
           length (players b') = length (players b) \<and>
           (\<forall>i < length (players b).
              id_player (players b' ! i) = id_player (players b ! i) \<and>
              color (players b' ! i) = color (players b ! i) \<and>
              (if id_player (players b ! i) = pid
               then score (players b' ! i) = score (players b ! i) + int (length s) \<and>
                    length (pieces (players b' ! i)) = length (pieces (players b ! i)) \<and>
                    (\<forall>j < length (pieces (players b ! i)).
                       pieces (players b' ! i) ! j =
                         (if id_piece (pieces (players b ! i) ! j) = id_piece p
                          then (pieces (players b ! i) ! j)\<lparr>used := True\<rparr>
                          else pieces (players b ! i) ! j))
               else players b' ! i = players b ! i)) \<and>
           (\<exists>i < length (players b).
              id_player (players b ! i) = pid \<and>
              (\<forall>j < i. id_player (players b ! j) \<noteq> pid) \<and>
              currentPlayer b' = Some (id_player (players b ! ((i + 1) mod length (players b))))) \<and>
           moveHistory b' = moveHistory b @ [mv] \<and> lastMove b' = Some mv \<and>
           size_board b' = size_board b \<and> status b' = status b"
proof -
  from placePiece_success [OF ok, of now] obtain g' where
    rd: "\<forall>r c. gridRead g' r c =
               (if (r, c) \<in> set (absCells s row col) then Inr (Some pid)
                else gridRead (grid b) r c)"
    and pp: "placePiece now b p row col pid =
               Inr (b\<lparr>grid := g', players := updatePlayers (players b) p s pid,
                      moveHistory := moveHistory b @ [mv], lastMove := Some mv,
                      currentPlayer := getNextPlayer b pid\<rparr>)"
    unfolding s mv by blast
  let ?b' = "b\<lparr>grid := g', players := updatePlayers (players b) p s pid,
                moveHistory := moveHistory b @ [mv], lastMove := Some mv,
                currentPlayer := getNextPlayer b pid\<rparr>"
  from canPlacePiece_True_D(2) [OF ok] obtain pl where pl: "findPlayer b pid = Some pl" ..
  have pls: "\<forall>i < length (players b).
              id_player (players ?b' ! i) = id_player (players b ! i) \<and>
              color (players ?b' ! i) = color (players b ! i) \<and>
              (if id_player (players b ! i) = pid
               then score (players ?b' ! i) = score (players b ! i) + int (length s) \<and>
                    length (pieces (players ?b' ! i)) = length (pieces (players b ! i)) \<and>
                    (\<forall>j < length (pieces (players b ! i)).
                       pieces (players ?b' ! i) ! j =
                         (if id_piece (pieces (players b ! i) ! j) = id_piece p
                          then (pieces (players b ! i) ! j)\<lparr>used := True\<rparr>
                          else pieces (players b ! i) ! j))
               else players ?b' ! i = players b ! i)"
    using updatePlayers_nth [of _ "players b" p s pid] by simp
  have len: "length (players ?b') = length (players b)"
    by (simp add: updatePlayers_def)
  have nxt: "\<exists>i < length (players b).
              id_player (players b ! i) = pid \<and>
              (\<forall>j < i. id_player (players b ! j) \<noteq> pid) \<and>
              currentPlayer ?b' = Some (id_player (players b ! ((i + 1) mod length (players b))))"
    using getNextPlayer_successor [OF pl] by simp
  have rest: "moveHistory ?b' = moveHistory b @ [mv] \<and> lastMove ?b' = Some mv \<and>
           size_board ?b' = size_board b \<and> status ?b' = status b"
    by simp
  have g: "\<forall>r c. gridRead (grid ?b') r c =
                    (if (r, c) \<in> set (absCells s row col) then Inr (Some pid)
                     else gridRead (grid b) r c)"
    using rd by simp
  from pp g len pls nxt rest show ?thesis by blast
qed

theorem placePiece_effect_witness:
  "\<exists>b'. placePiece 7 startedBoard pieceI2 18 19 2 = Inr b' \<and>
        gridRead (grid b') 18 19 = Inr (Some 2) \<and>
        gridRead (grid b') 19 19 = Inr (Some 2) \<and>
        gridRead (grid b') 17 19 = Inr (Some 0) \<and>
        score (players b' ! 1) = 2 \<and>
        moveHistory b' = [\<lparr>playerId = 2, pieceId = ''I2'', position = (18, 19),
                            shape_move = [(0, 0), (1, 0)], timestamp = 7\<rparr>] \<and>
        status b' = IN_PROGRESS"
proof -
  have ok: "canPlacePiece startedBoard pieceI2 18 19 2 = Inr True" by code_simp
  have s: "[(0, 0), (1, 0)] = getTransformedShape pieceI2" by code_simp
  have mv: "\<lparr>playerId = 2, pieceId = ''I2'', position = (18, 19),
              shape_move = [(0, 0), (1, 0)], timestamp = 7\<rparr>
            = \<lparr>playerId = 2, pieceId = id_piece pieceI2, position = (18, 19),
               shape_move = [(0, 0), (1, 0)], timestamp = 7\<rparr>" by code_simp
  have g0: "gridRead (grid startedBoard) 17 19 = Inr (Some 0)" by code_simp
  have p1: "1 < length (players startedBoard)" "id_player (players startedBoard ! 1) = 2"
    "score (players startedBoard ! 1) = 0" by code_simp+
  have h: "moveHistory startedBoard = []" "status startedBoard = IN_PROGRESS" by code_simp+
  from placePiece_effect [OF ok s mv] obtain b' where
    pp: "placePiece 7 startedBoard pieceI2 18 19 2 = Inr b'"
    and rd: "\<forall>r c. gridRead (grid b') r c =
                    (if (r, c) \<in> set (absCells [(0, 0), (1, 0)] 18 19) then Inr (Some 2)
                     else gridRead (grid startedBoard) r c)"
    and pls: "\<forall>i < length (players startedBoard).
              id_player (players b' ! i) = id_player (players startedBoard ! i) \<and>
              color (players b' ! i) = color (players startedBoard ! i) \<and>
              (if id_player (players startedBoard ! i) = 2
               then score (players b' ! i) = score (players startedBoard ! i) + int (length [(0, 0), (1, 0) :: int \<times> int]) \<and>
                    length (pieces (players b' ! i)) = length (pieces (players startedBoard ! i)) \<and>
                    (\<forall>j < length (pieces (players startedBoard ! i)).
                       pieces (players b' ! i) ! j =
                         (if id_piece (pieces (players startedBoard ! i) ! j) = id_piece pieceI2
                          then (pieces (players startedBoard ! i) ! j)\<lparr>used := True\<rparr>
                          else pieces (players startedBoard ! i) ! j))
               else players b' ! i = players startedBoard ! i)"
    and rest: "moveHistory b' = moveHistory startedBoard @ [\<lparr>playerId = 2, pieceId = ''I2'', position = (18, 19),
              shape_move = [(0, 0), (1, 0)], timestamp = 7\<rparr>]" "status b' = status startedBoard"
    by blast
  from rd have "gridRead (grid b') 18 19 = Inr (Some 2)" "gridRead (grid b') 19 19 = Inr (Some 2)"
    "gridRead (grid b') 17 19 = Inr (Some 0)"
    by (simp_all add: absCells_def g0)
  moreover from pls p1 have "score (players b' ! 1) = 2" by simp
  ultimately show ?thesis using pp rest h by simp
qed

section \<open>The store-passing \<^verbatim>\<open>placePiece\<close> against the one on values\<close>

lemma copyRows_spec:
  assumes "\<forall>a \<in> set as. a < nextFree h" and "copyRows h as = (h', as')"
  shows "distinct as' \<and>
         (\<forall>x \<in> set as'. nextFree h \<le> x \<and> x < nextFree h') \<and>
         nextFree h' = nextFree h + length as \<and>
         (\<forall>a < nextFree h. rowAt h' a = rowAt h a) \<and>
         map (rowAt h') as' = map (rowAt h) as"
  using assms
proof (induction as arbitrary: h h' as')
  case Nil
  then show ?case by simp
next
  case (Cons a as)
  let ?n = "nextFree h"
  let ?h1 = "h\<lparr>rowAt := (rowAt h)(?n := rowAt h a), nextFree := Suc ?n\<rparr>"
  obtain h2 as2 where c: "copyRows ?h1 as = (h2, as2)" by (cases "copyRows ?h1 as")
  with Cons.prems(2) have res: "h' = h2" "as' = ?n # as2"
    by (simp_all add: Let_def)
  from Cons.prems(1) have a: "a < ?n" and as: "\<forall>x \<in> set as. x < ?n" by simp_all
  then have "\<forall>x \<in> set as. x < nextFree ?h1" by auto
  from Cons.IH [OF this c] have ih:
    "distinct as2 \<and>
     (\<forall>x \<in> set as2. nextFree ?h1 \<le> x \<and> x < nextFree h2) \<and>
     nextFree h2 = nextFree ?h1 + length as \<and>
     (\<forall>x < nextFree ?h1. rowAt h2 x = rowAt ?h1 x) \<and>
     map (rowAt h2) as2 = map (rowAt ?h1) as" .
  have n1: "nextFree ?h1 = Suc ?n" by simp
  from ih have d: "distinct as2" by blast
  from ih have rng: "\<forall>x \<in> set as2. Suc ?n \<le> x \<and> x < nextFree h2"
    unfolding n1 by blast
  from ih have nf: "nextFree h2 = Suc ?n + length as"
    unfolding n1 by blast
  from ih have keep: "\<forall>x < Suc ?n. rowAt h2 x = rowAt ?h1 x"
    unfolding n1 by blast
  from ih have cp: "map (rowAt h2) as2 = map (rowAt ?h1) as"
    by blast
  have m: "map (rowAt ?h1) as = map (rowAt h) as"
    using as by auto
  have r0: "rowAt h2 ?n = rowAt h a" using keep by simp
  have old: "\<forall>x < ?n. rowAt h2 x = rowAt h x" using keep by simp
  have notin: "?n \<notin> set as2" using rng by auto
  have "distinct (?n # as2)" using d notin by simp
  moreover have "\<forall>x \<in> set (?n # as2). ?n \<le> x \<and> x < nextFree h2"
    using rng nf by auto
  moreover have "nextFree h2 = ?n + length (a # as)" using nf by simp
  moreover have "map (rowAt h2) (?n # as2) = map (rowAt h) (a # as)"
    using r0 cp m by simp
  ultimately show ?case
    unfolding res using old by blast
qed

lemma rowWrite_refines:
  assumes "distinct g"
  shows "case rowWrite h g r c v of
           Inl e \<Rightarrow> gridWrite (map (rowAt h) g) r c v = Inl e
         | Inr h' \<Rightarrow> gridWrite (map (rowAt h) g) r c v = Inr (map (rowAt h') g) \<and>
                     nextFree h' = nextFree h \<and>
                     (\<forall>a. a \<notin> set g \<longrightarrow> rowAt h' a = rowAt h a)"
proof (cases "0 \<le> r \<and> r < int (length g)")
  case False
  then show ?thesis by (auto simp: rowWrite_def gridWrite_def)
next
  case True
  then have r: "nat r < length g" by auto
  let ?h' = "h\<lparr>rowAt := (rowAt h)(g ! nat r := rowSet (rowAt h (g ! nat r)) c v)\<rparr>"
  have "map (rowAt ?h') g = (map (rowAt h) g)[nat r := rowSet (rowAt h (g ! nat r)) c v]"
  proof (rule nth_equalityI)
    show "length (map (rowAt ?h') g) = length ((map (rowAt h) g)[nat r := rowSet (rowAt h (g ! nat r)) c v])"
      by simp
  next
    fix i assume "i < length (map (rowAt ?h') g)"
    then have i: "i < length g" by simp
    show "map (rowAt ?h') g ! i = (map (rowAt h) g)[nat r := rowSet (rowAt h (g ! nat r)) c v] ! i"
    proof (cases "i = nat r")
      case True
      with i show ?thesis by simp
    next
      case False
      with assms i r have "g ! i \<noteq> g ! nat r" by (simp add: nth_eq_iff_index_eq)
      with i False show ?thesis by simp
    qed
  qed
  moreover have "\<forall>a. a \<notin> set g \<longrightarrow> rowAt ?h' a = rowAt h a"
    using r by auto
  ultimately show ?thesis
    using True r by (simp add: rowWrite_def gridWrite_def Let_def)
qed

lemma stampCellsS_refines:
  assumes "distinct g" and "stampCellsS h g s row col pid = (eo, h')"
  shows "nextFree h' = nextFree h \<and>
         (\<forall>a. a \<notin> set g \<longrightarrow> rowAt h' a = rowAt h a) \<and>
         (case stampCells (map (rowAt h) g) s row col pid of
            Inl e \<Rightarrow> eo = Some e
          | Inr g' \<Rightarrow> eo = None \<and> map (rowAt h') g = g')"
  using assms(2)
proof (induction s arbitrary: h)
  case Nil
  then show ?case by simp
next
  case (Cons x s)
  obtain dx dy where x: "x = (dx, dy)" by (cases x)
  show ?case
  proof (cases "rowWrite h g (row + dx) (col + dy) pid")
    case (Inl e)
    with rowWrite_refines [OF assms(1), of h "row + dx" "col + dy" pid] Cons.prems
    show ?thesis by (simp add: x)
  next
    case (Inr h1)
    with rowWrite_refines [OF assms(1), of h "row + dx" "col + dy" pid]
    have w: "gridWrite (map (rowAt h) g) (row + dx) (col + dy) pid = Inr (map (rowAt h1) g)"
      and n: "nextFree h1 = nextFree h"
      and f: "\<forall>a. a \<notin> set g \<longrightarrow> rowAt h1 a = rowAt h a"
      by simp_all
    from Cons.prems Inr have "stampCellsS h1 g s row col pid = (eo, h')" by (simp add: x)
    from Cons.IH [OF this] show ?thesis
      using w n f by (simp add: x)
  qed
qed


lemma getNextPlayer_snapshot: "getNextPlayer (snapshot h br) pid = getNextPlayer br pid"
  by (simp add: getNextPlayer_def snapshot_def)

lemma placePieceS_refines:
  assumes valid: "\<forall>a \<in> set (grid br). a < nextFree h"
    and run: "placePieceS now h br p row col pid = (res, h')"
  shows "map_sum id (snapshot h') res = placePiece now (snapshot h br) p row col pid \<and>
         (\<forall>a < nextFree h. rowAt h' a = rowAt h a) \<and>
         (case res of
            Inl e \<Rightarrow> h' = h
          | Inr br' \<Rightarrow> distinct (grid br') \<and>
                       (\<forall>a \<in> set (grid br'). nextFree h \<le> a \<and> a < nextFree h') \<and>
                       nextFree h' = nextFree h + length (grid br))"
proof (cases "canPlacePiece (snapshot h br) p row col pid = Inr True")
  case False
  then show ?thesis
    using run
    by (cases "canPlacePiece (snapshot h br) p row col pid")
       (auto simp: placePieceS_def placePiece_def)
next
  case True
  let ?s = "getTransformedShape p"
  let ?mv = "\<lparr>playerId = pid, pieceId = id_piece p, position = (row, col),
               shape_move = ?s, timestamp = now\<rparr>"
  obtain h1 ng where c: "copyRows h (grid br) = (h1, ng)" by (cases "copyRows h (grid br)")
  from copyRows_spec [OF valid c] have
    d: "distinct ng"
    and rng: "\<forall>x \<in> set ng. nextFree h \<le> x \<and> x < nextFree h1"
    and nf: "nextFree h1 = nextFree h + length (grid br)"
    and keep: "\<forall>a < nextFree h. rowAt h1 a = rowAt h a"
    and cp: "map (rowAt h1) ng = map (rowAt h) (grid br)"
    by blast+
  obtain eo h2 where st: "stampCellsS h1 ng ?s row col pid = (eo, h2)"
    by (cases "stampCellsS h1 ng ?s row col pid")
  from placePiece_success [OF True, of now] obtain g' where
    sv: "stampCells (grid (snapshot h br)) ?s row col pid = Inr g'"
    and pv: "placePiece now (snapshot h br) p row col pid =
               Inr ((snapshot h br)\<lparr>grid := g',
                      players := updatePlayers (players (snapshot h br)) p ?s pid,
                      moveHistory := moveHistory (snapshot h br) @ [?mv],
                      lastMove := Some ?mv,
                      currentPlayer := getNextPlayer (snapshot h br) pid\<rparr>)"
    by blast
  have "grid (snapshot h br) = map (rowAt h1) ng"
    using cp by (simp add: snapshot_def)
  with sv have sv1: "stampCells (map (rowAt h1) ng) ?s row col pid = Inr g'" by simp
  from stampCellsS_refines [OF d st] sv1 have
    nf2: "nextFree h2 = nextFree h1"
    and keep2: "\<forall>a. a \<notin> set ng \<longrightarrow> rowAt h2 a = rowAt h1 a"
    and eo: "eo = None" and g': "map (rowAt h2) ng = g'"
    by simp_all
  let ?br' = "br\<lparr>grid := ng, players := updatePlayers (players br) p ?s pid,
                  moveHistory := moveHistory br @ [?mv], lastMove := Some ?mv,
                  currentPlayer := getNextPlayer br pid\<rparr>"
  from run True c st eo have res: "res = Inr ?br'" "h' = h2"
    by (simp_all add: placePieceS_def Let_def)
  have "snapshot h2 ?br' = (snapshot h br)\<lparr>grid := g',
                      players := updatePlayers (players (snapshot h br)) p ?s pid,
                      moveHistory := moveHistory (snapshot h br) @ [?mv],
                      lastMove := Some ?mv,
                      currentPlayer := getNextPlayer (snapshot h br) pid\<rparr>"
    unfolding getNextPlayer_snapshot by (simp add: snapshot_def g')
  with pv have one: "map_sum id (snapshot h') res = placePiece now (snapshot h br) p row col pid"
    unfolding res by simp
  have two: "\<forall>a < nextFree h. rowAt h' a = rowAt h a"
  proof (intro allI impI)
    fix a assume a: "a < nextFree h"
    with rng have "a \<notin> set ng" by auto
    with keep2 keep a show "rowAt h' a = rowAt h a" unfolding res by simp
  qed
  have three: "distinct (grid ?br') \<and>
                 (\<forall>a \<in> set (grid ?br'). nextFree h \<le> a \<and> a < nextFree h2) \<and>
                 nextFree h2 = nextFree h + length (grid br)"
    using d rng nf nf2 by simp
  from one two three show ?thesis unfolding res by auto
qed

lemma snapshot_frame:
  assumes "\<forall>a \<in> set (grid br). a < nextFree h" and "\<forall>a < nextFree h. rowAt h' a = rowAt h a"
  shows "snapshot h' br = snapshot h br"
  using assms by (simp add: snapshot_def)

section \<open>What the checks read, and which exceptions can arise\<close>

lemma isValidPosition_cong:
  "size_board b' = size_board b \<Longrightarrow> isValidPosition r c b' = isValidPosition r c b"
  by (simp add: isValidPosition_def)

lemma isCellEmpty_cong:
  "grid b' = grid b \<Longrightarrow> size_board b' = size_board b \<Longrightarrow> isCellEmpty r c b' = isCellEmpty r c b"
  by (simp add: isCellEmpty_def isValidPosition_def)

lemma touchesOffsets_cong:
  assumes "grid b' = grid b" and "size_board b' = size_board b"
  shows "touchesOffsets offs row col b' pid = touchesOffsets offs row col b pid"
proof (induction offs)
  case Nil
  show ?case by simp
next
  case (Cons x offs)
  obtain dx dy where x: "x = (dx, dy)" by (cases x)
  show ?case
    by (simp add: x Cons.IH assms(1) isValidPosition_cong [OF assms(2)] Let_def
          cong: sum.case_cong if_cong)
qed

lemma scanCells_cong:
  assumes "grid b' = grid b" and "size_board b' = size_board b"
  shows "scanCells b' s row col pid tc te = scanCells b s row col pid tc te"
proof (induction s arbitrary: tc te)
  case Nil
  show ?case by simp
next
  case (Cons x s)
  obtain dx dy where x: "x = (dx, dy)" by (cases x)
  have c: "touchesPlayerCorner r c b' pid = touchesPlayerCorner r c b pid" for r c
    unfolding touchesPlayerCorner_def using assms by (rule touchesOffsets_cong)
  have e: "touchesPlayerEdge r c b' pid = touchesPlayerEdge r c b pid" for r c
    unfolding touchesPlayerEdge_def using assms by (rule touchesOffsets_cong)
  show ?case
    by (simp add: x c e Cons.IH Let_def cong: sum.case_cong)
qed

lemma cellsFree_cong:
  assumes "grid b' = grid b" and "size_board b' = size_board b"
  shows "cellsFree b' s row col = cellsFree b s row col"
proof (induction s)
  case Nil
  show ?case by simp
next
  case (Cons x s)
  obtain dx dy where x: "x = (dx, dy)" by (cases x)
  show ?case
    by (simp add: x Cons.IH isCellEmpty_cong [OF assms] isValidPosition_cong [OF assms(2)]
          Let_def cong: sum.case_cong if_cong)
qed

lemma canPlacePiece_cong:
  assumes "grid b' = grid b" and "size_board b' = size_board b" and "players b' = players b"
  shows "canPlacePiece b' p row col pid = canPlacePiece b p row col pid"
proof -
  have "findPlayer b' pid = findPlayer b pid"
    using assms(3) by (simp add: findPlayer_def)
  moreover have "touchesCorner s row col b' = touchesCorner s row col b" for s
    using assms(2) by (simp add: touchesCorner_def)
  ultimately have "isValidPlacement b' s row col pid = isValidPlacement b s row col pid" for s
    by (simp add: isValidPlacement_def scanCells_cong [OF assms(1,2)] Let_def
          cong: option.case_cong if_cong)
  then show ?thesis
    using \<open>findPlayer b' pid = findPlayer b pid\<close>
    by (simp add: canPlacePiece_def cellsFree_cong [OF assms(1,2)] Let_def
          cong: option.case_cong sum.case_cong if_cong)
qed

lemma touchesOffsets_TypeError:
  "touchesOffsets offs row col b pid = Inl e \<Longrightarrow> e = TypeError"
  by (induction offs) (auto simp: gridRead_def Let_def split: if_splits sum.splits)

lemma scanCells_TypeError:
  "scanCells b s row col pid tc te = Inl e \<Longrightarrow> e = TypeError"
  by (induction s arbitrary: tc te)
     (auto simp: touchesPlayerCorner_def touchesPlayerEdge_def Let_def
           simp del: touchesOffsets.simps
           split: sum.splits dest: touchesOffsets_TypeError)

lemma cellsFree_TypeError:
  "cellsFree b s row col = Inl e \<Longrightarrow> e = TypeError"
  by (induction s)
     (auto simp: isCellEmpty_def gridRead_def Let_def split: if_splits sum.splits)

lemma canPlacePiece_TypeError:
  "canPlacePiece b p row col pid = Inl e \<Longrightarrow> e = TypeError"
  by (auto simp: canPlacePiece_def isValidPlacement_def Let_def
           split: if_splits option.splits sum.splits prod.splits
           dest: scanCells_TypeError cellsFree_TypeError)

lemma stampCellsS_TypeError:
  "stampCellsS h g s row col pid = (Some e, h') \<Longrightarrow> e = TypeError"
  by (induction s arbitrary: h)
     (auto simp: rowWrite_def Let_def split: if_splits sum.splits)

lemma placePieceS_IllegalMove_iff:
  "fst (placePieceS now h br p row col pid) = Inl IllegalMove \<longleftrightarrow>
     canPlacePiece (snapshot h br) p row col pid = Inr False"
proof (cases "canPlacePiece (snapshot h br) p row col pid")
  case (Inl e)
  with canPlacePiece_TypeError [OF this] show ?thesis
    by (simp add: placePieceS_def IllegalMove_def)
next
  case (Inr ok)
  show ?thesis
  proof (cases ok)
    case False
    with Inr show ?thesis by (simp add: placePieceS_def IllegalMove_def)
  next
    case True
    obtain h1 ng where c: "copyRows h (grid br) = (h1, ng)" by (cases "copyRows h (grid br)")
    obtain eo h2 where st: "stampCellsS h1 ng (getTransformedShape p) row col pid = (eo, h2)"
      by (cases "stampCellsS h1 ng (getTransformedShape p) row col pid")
    show ?thesis
    proof (cases eo)
      case None
      with Inr True c st show ?thesis by (simp add: placePieceS_def Let_def)
    next
      case (Some e)
      with st have "e = TypeError" by (simp add: stampCellsS_TypeError)
      with Some Inr True c st show ?thesis
        by (simp add: placePieceS_def Let_def IllegalMove_def)
    qed
  qed
qed

lemma placePieceS_IllegalMove_store:
  assumes "fst (placePieceS now h br p row col pid) = Inl IllegalMove"
  shows "snd (placePieceS now h br p row col pid) = h"
proof -
  from assms have "canPlacePiece (snapshot h br) p row col pid = Inr False"
    by (simp add: placePieceS_IllegalMove_iff)
  then show ?thesis by (simp add: placePieceS_def)
qed

section \<open>Rejection and the frame of \<^verbatim>\<open>placePiece\<close>\<close>

lemma stampCells_TypeError:
  "stampCells g s row col pid = Inl e \<Longrightarrow> e = TypeError"
  by (induction s arbitrary: g)
     (auto simp: gridWrite_def split: if_splits sum.splits)

lemma placePiece_throws_iff:
  "placePiece now b p row col pid = Inl IllegalMove \<longleftrightarrow>
     canPlacePiece b p row col pid = Inr False"
proof (cases "canPlacePiece b p row col pid")
  case (Inl e)
  with canPlacePiece_TypeError [OF this] show ?thesis
    by (simp add: placePiece_def IllegalMove_def)
next
  case (Inr ok)
  show ?thesis
  proof (cases ok)
    case False
    with Inr show ?thesis by (simp add: placePiece_def IllegalMove_def)
  next
    case True
    with Inr placePiece_success [of b p row col pid now] show ?thesis by auto
  qed
qed

text \<open>
  Claim C3. \<^verbatim>\<open>placePiece\<close> throws \<^verbatim>\<open>Error('Invalid piece placement')\<close> (the spec's
  \<open>IllegalMove\<close>) exactly when \<^verbatim>\<open>canPlacePiece\<close> returns \<^verbatim>\<open>false\<close> for the same arguments,
  on board values and on boards in a store alike; and when it throws, the store is the one
  before the call, so the board passed in reads exactly as before.
\<close>

theorem placePiece_IllegalMove:
  "(placePiece now b p row col pid = Inl IllegalMove \<longleftrightarrow>
      canPlacePiece b p row col pid = Inr False) \<and>
   (fst (placePieceS now h br p row col pid) = Inl IllegalMove \<longleftrightarrow>
      canPlacePiece (snapshot h br) p row col pid = Inr False) \<and>
   (fst (placePieceS now h br p row col pid) = Inl IllegalMove \<longrightarrow>
      snd (placePieceS now h br p row col pid) = h \<and>
      snapshot (snd (placePieceS now h br p row col pid)) br = snapshot h br)"
  using placePieceS_IllegalMove_store [of now h br p row col pid]
  by (simp add: placePiece_throws_iff placePieceS_IllegalMove_iff)

theorem placePiece_IllegalMove_witness:
  "placePiece 0 startedBoard pieceI1 5 5 1 = Inl IllegalMove \<and>
   fst (placePieceS 0 exampleStore startedRef pieceI1 5 5 1) = Inl IllegalMove \<and>
   snd (placePieceS 0 exampleStore startedRef pieceI1 5 5 1) = exampleStore \<and>
   snapshot exampleStore startedRef = startedBoard"
proof -
  have a: "canPlacePiece startedBoard pieceI1 5 5 1 = Inr False" by code_simp
  have b: "snapshot exampleStore startedRef = startedBoard" by code_simp
  from placePiece_IllegalMove [of 0 startedBoard pieceI1 5 5 1 exampleStore startedRef] a b
  show ?thesis by simp
qed

text \<open>
  Claim C7. A successful \<^verbatim>\<open>placePiece\<close> on a board whose rows are allocated in the store
  leaves every array that existed before the call as it was, so the board passed in
  reads exactly as before; the returned board is a different value, its rows are freshly
  allocated arrays that the argument does not share, and read through the store it is the
  board that \<^verbatim>\<open>placePiece\<close> on values computes.
\<close>

theorem placePiece_leaves_argument:
  assumes "\<forall>a \<in> set (grid br). a < nextFree h"
    and "placePieceS now h br p row col pid = (Inr br', h')"
  shows "snapshot h' br = snapshot h br \<and>
         (\<forall>a < nextFree h. rowAt h' a = rowAt h a) \<and>
         set (grid br') \<inter> set (grid br) = {} \<and>
         (\<forall>a \<in> set (grid br'). nextFree h \<le> a) \<and>
         br' \<noteq> br \<and>
         placePiece now (snapshot h br) p row col pid = Inr (snapshot h' br')"
proof -
  from placePieceS_refines [OF assms] have
    ref: "placePiece now (snapshot h br) p row col pid = Inr (snapshot h' br')"
    and keep: "\<forall>a < nextFree h. rowAt h' a = rowAt h a"
    and fresh: "\<forall>a \<in> set (grid br'). nextFree h \<le> a \<and> a < nextFree h'"
    by auto
  from assms(1) keep have same: "snapshot h' br = snapshot h br" by (rule snapshot_frame)
  from assms(1) fresh have disj: "set (grid br') \<inter> set (grid br) = {}" by fastforce
  have ok: "canPlacePiece (snapshot h br) p row col pid = Inr True"
    using ref by (auto simp: placePiece_def split: sum.splits if_splits)
  from placePiece_success [OF ok, of now] ref
  have "length (moveHistory (snapshot h' br')) = Suc (length (moveHistory (snapshot h br)))"
    by auto
  then have "length (moveHistory br') \<noteq> length (moveHistory br)"
    by (simp add: snapshot_def)
  then have "br' \<noteq> br" by auto
  with same keep disj fresh ref show ?thesis by simp
qed

theorem placePiece_leaves_argument_witness:
  "\<exists>br' h'. placePieceS 0 exampleStore startedRef pieceI1 0 0 1 = (Inr br', h') \<and>
      snapshot h' startedRef = startedBoard \<and>
      placePiece 0 startedBoard pieceI1 0 0 1 = Inr (snapshot h' br') \<and>
      set (grid br') \<inter> set (grid startedRef) = {} \<and> br' \<noteq> startedRef"
proof -
  have v: "\<forall>a \<in> set (grid startedRef). a < nextFree exampleStore" by code_simp
  have b: "snapshot exampleStore startedRef = startedBoard" by code_simp
  have "\<not> isl (fst (placePieceS 0 exampleStore startedRef pieceI1 0 0 1))" by code_simp
  then obtain br' where "fst (placePieceS 0 exampleStore startedRef pieceI1 0 0 1) = Inr br'"
    by (cases "fst (placePieceS 0 exampleStore startedRef pieceI1 0 0 1)") auto
  then obtain h' where run: "placePieceS 0 exampleStore startedRef pieceI1 0 0 1 = (Inr br', h')"
    by (cases "placePieceS 0 exampleStore startedRef pieceI1 0 0 1") auto
  from placePiece_leaves_argument [OF v run] b run show ?thesis by simp
qed

section \<open>Fields that \<^verbatim>\<open>placePiece\<close> does not read\<close>

lemma placePiece_currentPlayer:
  "placePiece now (b\<lparr>currentPlayer := cp\<rparr>) p row col pid = placePiece now b p row col pid"
proof -
  have c: "canPlacePiece (b\<lparr>currentPlayer := cp\<rparr>) p row col pid = canPlacePiece b p row col pid"
    by (rule canPlacePiece_cong) simp_all
  have n: "getNextPlayer (b\<lparr>currentPlayer := cp\<rparr>) pid = getNextPlayer b pid"
    by (simp add: getNextPlayer_def)
  show ?thesis
    unfolding placePiece_def c n
    by (simp add: Let_def cong: sum.case_cong if_cong)
qed

text \<open>
  Claim C10. Neither \<^verbatim>\<open>canPlacePiece\<close> nor \<^verbatim>\<open>placePiece\<close> reads \<^verbatim>\<open>board.currentPlayer\<close>:
  whatever value \<open>cp\<close> that field holds, the verdict and the outcome are the same, so a
  placement that is legal for a player is accepted also when it is another player's turn.
\<close>

theorem placePiece_ignores_turn:
  assumes "canPlacePiece b p row col pid = Inr True"
  shows "(\<exists>b'. placePiece now (b\<lparr>currentPlayer := cp\<rparr>) p row col pid = Inr b') \<and>
         canPlacePiece (b\<lparr>currentPlayer := cp\<rparr>) p row col pid
           = canPlacePiece b p row col pid \<and>
         placePiece now (b\<lparr>currentPlayer := cp\<rparr>) p row col pid
           = placePiece now b p row col pid"
proof -
  have c: "canPlacePiece (b\<lparr>currentPlayer := cp\<rparr>) p row col pid = canPlacePiece b p row col pid"
    by (rule canPlacePiece_cong) simp_all
  from placePiece_success [OF assms, of now]
  have "\<exists>b'. placePiece now b p row col pid = Inr b'" by blast
  with c show ?thesis by (simp add: placePiece_currentPlayer)
qed

theorem placePiece_ignores_turn_witness:
  "status startedBoard = IN_PROGRESS \<and> currentPlayer startedBoard = Some 1 \<and>
   (\<exists>b'. placePiece 0 startedBoard pieceI1 0 19 2 = Inr b')"
proof -
  have ok: "canPlacePiece startedBoard pieceI1 0 19 2 = Inr True" by code_simp
  have st: "status startedBoard = IN_PROGRESS" "currentPlayer startedBoard = Some 1"
    by code_simp+
  have "startedBoard\<lparr>currentPlayer := Some 1\<rparr> = startedBoard"
    using st(2) by simp
  with placePiece_ignores_turn [OF ok, of 0 "Some 1"] st show ?thesis by simp
qed

text \<open>
  Claim C5, as stated, fails: on the started board with its status set to finished, player 1
  places \<^verbatim>\<open>I1\<close> on the corner (0,0); the call succeeds and returns a board with the cell
  taken, the score raised and the move recorded.
\<close>

theorem finished_board_counterexample:
  "startGame createBoard 4 = Inr startedBoard \<and>
   finishedBoard = startedBoard\<lparr>status := FINISHED\<rparr> \<and>
   status finishedBoard = FINISHED \<and>
   (case placePiece 0 finishedBoard pieceI1 0 0 1 of
      Inl e \<Rightarrow> False
    | Inr b' \<Rightarrow> grid b' ! 0 ! 0 = 1 \<and> grid finishedBoard ! 0 ! 0 = 0 \<and>
                score (players b' ! 0) = 1 \<and> score (players finishedBoard ! 0) = 0 \<and>
                length (moveHistory b') = 1 \<and> moveHistory finishedBoard = [] \<and>
                status b' = FINISHED)"
  by code_simp

lemma placePieceS_status:
  "fst (placePieceS now h (br\<lparr>status := st\<rparr>) p row col pid) =
     map_sum id (\<lambda>x. x\<lparr>status := st\<rparr>) (fst (placePieceS now h br p row col pid)) \<and>
   snd (placePieceS now h (br\<lparr>status := st\<rparr>) p row col pid) =
     snd (placePieceS now h br p row col pid)"
proof -
  have c: "canPlacePiece (snapshot h (br\<lparr>status := st\<rparr>)) p row col pid
             = canPlacePiece (snapshot h br) p row col pid"
    by (rule canPlacePiece_cong) (simp_all add: snapshot_def)
  have n: "getNextPlayer (br\<lparr>status := st\<rparr>) pid = getNextPlayer br pid"
    by (simp add: getNextPlayer_def)
  show ?thesis
    unfolding placePieceS_def c n
    by (auto simp: Let_def split: sum.splits prod.splits option.splits)
qed

text \<open>
  Claim C5, amended. \<^verbatim>\<open>placePiece\<close> does not look at \<^verbatim>\<open>status\<close>: on a board whose status is
  finished it throws \<open>IllegalMove\<close> exactly when \<^verbatim>\<open>canPlacePiece\<close> is false, and when
  \<^verbatim>\<open>canPlacePiece\<close> holds it succeeds and returns a new board, still finished, with the move
  appended to the history; the outcome is the one for the same board under any other
  status \<open>st\<close>, up to the status carried along. The finished board passed in is not
  modified by the call.
\<close>

theorem finished_board_not_a_gate:
  assumes "\<forall>a \<in> set (grid br). a < nextFree h" and "status br = FINISHED"
  shows "(fst (placePieceS now h br p row col pid) = Inl IllegalMove \<longleftrightarrow>
            canPlacePiece (snapshot h br) p row col pid = Inr False) \<and>
         (canPlacePiece (snapshot h br) p row col pid = Inr True \<longrightarrow>
            (\<exists>br'. fst (placePieceS now h br p row col pid) = Inr br' \<and>
                    status br' = FINISHED \<and>
                    length (moveHistory br') = Suc (length (moveHistory br)))) \<and>
         fst (placePieceS now h br p row col pid) =
           map_sum id (\<lambda>x. x\<lparr>status := FINISHED\<rparr>)
             (fst (placePieceS now h (br\<lparr>status := st\<rparr>) p row col pid)) \<and>
         snapshot (snd (placePieceS now h br p row col pid)) br = snapshot h br"
proof -
  obtain res h' where run: "placePieceS now h br p row col pid = (res, h')"
    by (cases "placePieceS now h br p row col pid")
  from placePieceS_refines [OF assms(1) run] have
    ref: "map_sum id (snapshot h') res = placePiece now (snapshot h br) p row col pid"
    and keep: "\<forall>a < nextFree h. rowAt h' a = rowAt h a"
    by simp_all
  from assms(1) keep have same: "snapshot h' br = snapshot h br" by (rule snapshot_frame)
  have acc: "\<exists>br'. res = Inr br' \<and> status br' = FINISHED \<and>
                    length (moveHistory br') = Suc (length (moveHistory br))"
    if ok: "canPlacePiece (snapshot h br) p row col pid = Inr True"
  proof -
    from placePiece_success [OF ok, of now] ref obtain br' where
      r: "res = Inr br'" and
      "status (snapshot h' br') = status (snapshot h br)" and
      "length (moveHistory (snapshot h' br')) = Suc (length (moveHistory (snapshot h br)))"
      by (cases res) auto
    with assms(2) show ?thesis by (simp add: snapshot_def)
  qed
  have "br\<lparr>status := st, status := FINISHED\<rparr> = br" using assms(2) by simp
  with placePieceS_status [where br = "br\<lparr>status := st\<rparr>" and st = FINISHED]
  have pass: "fst (placePieceS now h br p row col pid) =
           map_sum id (\<lambda>x. x\<lparr>status := FINISHED\<rparr>)
             (fst (placePieceS now h (br\<lparr>status := st\<rparr>) p row col pid))"
    by simp
  have acc': "canPlacePiece (snapshot h br) p row col pid = Inr True \<longrightarrow>
            (\<exists>br'. fst (placePieceS now h br p row col pid) = Inr br' \<and>
                    status br' = FINISHED \<and>
                    length (moveHistory br') = Suc (length (moveHistory br)))"
    using acc run by simp
  have same': "snapshot (snd (placePieceS now h br p row col pid)) br = snapshot h br"
    using same run by simp
  from placePieceS_IllegalMove_iff [of now h br p row col pid] acc' pass same'
  show ?thesis by blast
qed

theorem finished_board_not_a_gate_witness:
  "status finishedRef = FINISHED \<and>
   (\<exists>br'. fst (placePieceS 0 exampleStore finishedRef pieceI1 0 0 1) = Inr br' \<and>
           status br' = FINISHED \<and> length (moveHistory br') = 1) \<and>
   snapshot (snd (placePieceS 0 exampleStore finishedRef pieceI1 0 0 1)) finishedRef
     = finishedBoard"
proof -
  have v: "\<forall>a \<in> set (grid finishedRef). a < nextFree exampleStore" by code_simp
  have f: "status finishedRef = FINISHED" by code_simp
  have b: "snapshot exampleStore finishedRef = finishedBoard" by code_simp
  have ok: "canPlacePiece (snapshot exampleStore finishedRef) pieceI1 0 0 1 = Inr True"
    by code_simp
  have m: "moveHistory finishedRef = []" by code_simp
  from finished_board_not_a_gate [OF v f, of 0 pieceI1 0 0 1 IN_PROGRESS]
  have "(canPlacePiece (snapshot exampleStore finishedRef) pieceI1 0 0 1 = Inr True \<longrightarrow>
            (\<exists>br'. fst (placePieceS 0 exampleStore finishedRef pieceI1 0 0 1) = Inr br' \<and>
                    status br' = FINISHED \<and>
                    length (moveHistory br') = Suc (length (moveHistory finishedRef))))"
    and "snapshot (snd (placePieceS 0 exampleStore finishedRef pieceI1 0 0 1)) finishedRef
           = snapshot exampleStore finishedRef"
    by blast+
  with ok b f m show ?thesis by simp
qed

section \<open>Scores and used pieces\<close>

lemma length_rotatePiece: "length (rotatePiece s) = length s"
  by (simp add: rotatePiece_def Let_def)

lemma length_flipPiece: "length (flipPiece s) = length s"
  by (simp add: flipPiece_def Let_def)

lemma length_funpow_rotatePiece: "length ((rotatePiece ^^ n) s) = length s"
  by (induction n) (simp_all add: length_rotatePiece)

lemma length_getTransformedShape: "length (getTransformedShape p) = length (shape p)"
  by (simp add: getTransformedShape_def Let_def length_flipPiece length_funpow_rotatePiece)

lemma markUsed_ids: "map id_piece (markUsed p ps) = map id_piece ps"
  by (induction ps) (simp_all add: markUsed_def)

lemma markUsed_absent:
  "id_piece p \<notin> id_piece ` set ps \<Longrightarrow> markUsed p ps = ps"
  by (induction ps) (auto simp: markUsed_def)

lemma usedCells_markUsed:
  assumes "distinct (map id_piece ps)" and "q \<in> set ps" and "\<not> used q"
    and "id_piece p = id_piece q"
  shows "sum_list (map (\<lambda>x. int (length (shape x))) (filter used (markUsed p ps)))
           = sum_list (map (\<lambda>x. int (length (shape x))) (filter used ps)) + int (length (shape q))"
  using assms(1,2)
proof (induction ps)
  case Nil
  then show ?case by simp
next
  case (Cons x ps)
  show ?case
  proof (cases "x = q")
    case True
    with Cons.prems(1) assms(4) have "id_piece p \<notin> id_piece ` set ps" by auto
    then have "markUsed p ps = ps" by (rule markUsed_absent)
    then have "markUsed p (x # ps) = x\<lparr>used := True\<rparr> # ps"
      using True assms(4) by (simp add: markUsed_def)
    with True assms(3) show ?thesis by simp
  next
    case False
    with Cons.prems have q: "q \<in> set ps" and d: "distinct (map id_piece ps)" by auto
    from Cons.prems(1) q have "id_piece x \<noteq> id_piece q" by force
    then have "markUsed p (x # ps) = x # markUsed p ps"
      using assms(4) by (simp add: markUsed_def)
    with Cons.IH [OF d q] show ?thesis by simp
  qed
qed

lemma boardInv_createBoard: "boardInv createBoard"
  by (simp add: boardInv_def createBoard_def usedCells_def getAllPieces_def PIECE_SHAPES_def)

lemma boardInv_startGame:
  assumes "boardInv b" and "startGame b n = Inr b'"
  shows "boardInv b'"
proof -
  from assms(2) have p: "players b' = take (nat n) (players b)"
    by (auto simp: startGame_def split: if_splits)
  have "distinct (map id_player (take (nat n) (players b)))"
    using assms(1) by (simp add: boardInv_def take_map [symmetric])
  moreover have "set (take (nat n) (players b)) \<subseteq> set (players b)"
    by (rule set_take_subset)
  ultimately show ?thesis
    using assms(1) unfolding boardInv_def p by blast
qed


lemma updatePlayers_ids: "map id_player (updatePlayers pls p s pid) = map id_player pls"
  by (induction pls) (simp_all add: updatePlayers_def)

lemma placePiece_Inr_canPlace:
  "placePiece now b p row col pid = Inr b' \<Longrightarrow> canPlacePiece b p row col pid = Inr True"
  by (auto simp: placePiece_def split: sum.splits if_splits)

lemma placePiece_Inr_players:
  assumes "placePiece now b p row col pid = Inr b'"
  shows "players b' = updatePlayers (players b) p (getTransformedShape p) pid"
proof -
  from placePiece_success [OF placePiece_Inr_canPlace [OF assms], of now] assms
  show ?thesis by auto
qed

lemma ownPiece_D:
  assumes "ownPiece b pid p"
  obtains pl q where "findPlayer b pid = Some pl" and "q \<in> set (pieces pl)"
    and "id_piece p = id_piece q" and "shape p = shape q" and "used p = used q"
proof -
  from assms obtain pl where pl: "findPlayer b pid = Some pl"
    and ex: "list_ex (\<lambda>q. p = q\<lparr>rotation := rotation p, flipped := flipped p\<rparr>) (pieces pl)"
    by (auto simp: ownPiece_def split: option.splits)
  from ex obtain q where q: "q \<in> set (pieces pl)"
    and e: "p = q\<lparr>rotation := rotation p, flipped := flipped p\<rparr>"
    by (auto simp: list_ex_iff)
  from e have "id_piece p = id_piece (q\<lparr>rotation := rotation p, flipped := flipped p\<rparr>)"
    and "shape p = shape (q\<lparr>rotation := rotation p, flipped := flipped p\<rparr>)"
    and "used p = used (q\<lparr>rotation := rotation p, flipped := flipped p\<rparr>)"
    by simp_all
  then have "id_piece p = id_piece q" "shape p = shape q" "used p = used q" by simp_all
  with pl q that show ?thesis by blast
qed

lemma boardInv_placePiece:
  assumes inv: "boardInv b" and own: "ownPiece b pid p"
    and run: "placePiece now b p row col pid = Inr b'"
  shows "boardInv b'"
proof -
  let ?s = "getTransformedShape p"
  from own obtain pl q where pl: "findPlayer b pid = Some pl" and q: "q \<in> set (pieces pl)"
    and same: "id_piece p = id_piece q" "shape p = shape q" "used p = used q"
    by (rule ownPiece_D)
  from placePiece_Inr_canPlace [OF run] have "\<not> used p" by (rule canPlacePiece_True_D(1))
  with same have unused: "\<not> used q" by simp
  from findPlayer_Some_mem [OF pl] have plm: "pl \<in> set (players b)" "id_player pl = pid"
    by simp_all
  from inv have dis: "distinct (map id_player (players b))"
    and each: "\<And>x. x \<in> set (players b) \<Longrightarrow>
                 distinct (map id_piece (pieces x)) \<and> score x = usedCells x"
    by (simp_all add: boardInv_def)
  have pls: "players b' = updatePlayers (players b) p ?s pid"
    using run by (rule placePiece_Inr_players)
  have uniq: "x = pl" if "x \<in> set (players b)" "id_player x = pid" for x
    using dis that plm by (auto simp: distinct_map inj_on_def)
  have "distinct (map id_piece (pieces x')) \<and> score x' = usedCells x'"
    if "x' \<in> set (players b')" for x'
  proof -
    from that obtain x where x: "x \<in> set (players b)"
      and x': "x' = (if id_player x = pid
                     then x\<lparr>pieces := markUsed p (pieces x),
                            score := score x + int (length ?s)\<rparr>
                     else x)"
      unfolding pls updatePlayers_def by auto
    show ?thesis
    proof (cases "id_player x = pid")
      case False
      with x x' each show ?thesis by simp
    next
      case True
      with x have xp: "x = pl" by (rule uniq)
      from each [OF plm(1)] have d: "distinct (map id_piece (pieces pl))"
        and sc: "score pl = usedCells pl" by simp_all
      have "usedCells (pl\<lparr>pieces := markUsed p (pieces pl),
                           score := score pl + int (length ?s)\<rparr>)
              = usedCells pl + int (length (shape q))"
        using usedCells_markUsed [OF d q unused same(1)] by (simp add: usedCells_def)
      with True xp x' d sc same(2) show ?thesis
        by (simp add: markUsed_ids length_getTransformedShape)
    qed
  qed
  moreover have "distinct (map id_player (players b'))"
    using dis by (simp add: pls updatePlayers_ids)
  ultimately show ?thesis by (simp add: boardInv_def)
qed

lemma reachableOwn_boardInv: "reachableOwn b \<Longrightarrow> boardInv b"
proof (induction rule: reachableOwn.induct)
  case created
  show ?case by (rule boardInv_createBoard)
next
  case (started b playerCount b')
  then show ?case by (blast intro: boardInv_startGame)
next
  case (placed b pid p now row col b')
  then show ?case by (blast intro: boardInv_placePiece)
qed

text \<open>
  Claim C6, as stated, fails. \<^verbatim>\<open>canPlacePiece\<close> tests the \<^verbatim>\<open>used\<close> flag of the piece object
  it is handed, not the player's own copy, and \<^verbatim>\<open>placePiece\<close> never writes to that object.
  So the piece \<^verbatim>\<open>I1\<close> taken from the fresh board and placed on (0,0) can be placed again
  on (1,1): both calls succeed, the score is 2, and the only used piece has one cell.
\<close>

theorem score_invariant_counterexample:
  "startGame createBoard 4 = Inr startedBoard \<and>
   placePiece 0 startedBoard pieceI1 0 0 1 = Inr boardAfterI1 \<and>
   placePiece 1 boardAfterI1 pieceI1 1 1 1 = Inr boardTwiceI1 \<and>
   reachable boardTwiceI1 \<and>
   score (players boardTwiceI1 ! 0) = 2 \<and>
   usedCells (players boardTwiceI1 ! 0) = 1 \<and>
   \<not> scoreInv boardTwiceI1"
proof -
  have s: "startGame createBoard 4 = Inr startedBoard" by code_simp
  have p1: "placePiece 0 startedBoard pieceI1 0 0 1 = Inr boardAfterI1" by code_simp
  have p2: "placePiece 1 boardAfterI1 pieceI1 1 1 1 = Inr boardTwiceI1" by code_simp
  have "reachable startedBoard"
    using reachable.created s by (rule reachable.started)
  then have "reachable boardAfterI1"
    using p1 by (rule reachable.placed)
  then have "reachable boardTwiceI1"
    using p2 by (rule reachable.placed)
  moreover have "score (players boardTwiceI1 ! 0) = 2" by code_simp
  moreover have "usedCells (players boardTwiceI1 ! 0) = 1" by code_simp
  moreover have "\<not> scoreInv boardTwiceI1" by code_simp
  ultimately show ?thesis using s p1 p2 by simp
qed

text \<open>
  Claim C6, amended. On every board reachable from \<^verbatim>\<open>createBoard\<close> by \<^verbatim>\<open>startGame\<close> and by
  successful \<^verbatim>\<open>placePiece\<close> calls whose piece argument is a piece of the acting player's
  piece set on that board (same id, base shape and used flag; any rotation and flip),
  every player's score is the sum of the cell counts of that player's used pieces, and
  every further such \<^verbatim>\<open>placePiece\<close> call keeps it so.
\<close>

theorem score_invariant_own_pieces:
  assumes "reachableOwn b"
  shows "scoreInv b \<and>
         (\<forall>now p row col pid b'. ownPiece b pid p \<and> placePiece now b p row col pid = Inr b'
             \<longrightarrow> scoreInv b')"
proof -
  have inv: "scoreInv x" if "reachableOwn x" for x
    using reachableOwn_boardInv [OF that] by (simp add: boardInv_def scoreInv_def list_all_iff)
  have "scoreInv b'" if "ownPiece b pid p" "placePiece now b p row col pid = Inr b'"
    for now p row col pid b'
    by (rule inv) (rule reachableOwn.placed [OF assms that])
  with inv [OF assms] show ?thesis by blast
qed


theorem score_invariant_own_pieces_witness:
  "scoreInv boardAfterI1 \<and>
   scoreInv (projr (placePiece 2 boardAfterI1 (pieceI2\<lparr>rotation := 1\<rparr>) 1 1 1)) \<and>
   score (players (projr (placePiece 2 boardAfterI1 (pieceI2\<lparr>rotation := 1\<rparr>) 1 1 1)) ! 0) = 3"
proof -
  have s: "startGame createBoard 4 = Inr startedBoard" by code_simp
  have o1: "ownPiece startedBoard 1 pieceI1" by code_simp
  have p1: "placePiece 0 startedBoard pieceI1 0 0 1 = Inr boardAfterI1" by code_simp
  have o2: "ownPiece boardAfterI1 1 (pieceI2\<lparr>rotation := 1\<rparr>)" by code_simp
  have p2: "placePiece 2 boardAfterI1 (pieceI2\<lparr>rotation := 1\<rparr>) 1 1 1
              = Inr (projr (placePiece 2 boardAfterI1 (pieceI2\<lparr>rotation := 1\<rparr>) 1 1 1))"
    by code_simp
  have sc: "score (players (projr (placePiece 2 boardAfterI1 (pieceI2\<lparr>rotation := 1\<rparr>) 1 1 1)) ! 0) = 3"
    by code_simp
  have "reachableOwn startedBoard"
    using reachableOwn.created s by (rule reachableOwn.started)
  then have "reachableOwn boardAfterI1"
    using o1 p1 by (rule reachableOwn.placed)
  from score_invariant_own_pieces [OF this] o2 p2 sc show ?thesis by blast
qed

end
